theory Spec2Isabelle
  imports Complex_Main "HOL-Library.Word" "HOL-Library.Code_Target_Numeral"
begin

section \<open>Host-language numbers and strings\<close>

text \<open>
  The program is TypeScript (\<^verbatim>\<open>src/scripts/transcribeAudio.ts\<close>). Its \<^verbatim>\<open>number\<close> values
  are modelled as exact rationals, with \<open>None\<close> standing for \<^verbatim>\<open>NaN\<close>: sums and comparisons
  are exact, where the source rounds to the nearest double. Strings are \<open>string\<close>, lists of
  8-bit characters, which is exact for ASCII text.
\<close>

type_synonym jsnum = "rat option"

definition is_digit :: "char \<Rightarrow> bool" where
  "is_digit c \<longleftrightarrow> (48::nat) \<le> of_char c \<and> of_char c \<le> (57::nat)"

definition digit_val :: "char \<Rightarrow> nat" where
  "digit_val c = of_char c - 48"

definition digit_char :: "nat \<Rightarrow> char" where
  "digit_char d = char_of (48 + d)"

text \<open>The value of a string of decimal digits, most significant digit first.\<close>

definition dec_val :: "string \<Rightarrow> nat" where
  "dec_val ds = foldl (\<lambda>n c. 10 * n + digit_val c) 0 ds"

text \<open>
  \<^verbatim>\<open>Number(s)\<close> on the unsigned decimal literals: digits, optionally followed by a dot and
  digits; the empty string is 0. Every other string is mapped to \<open>None\<close>: it is
  \<^verbatim>\<open>NaN\<close> in the source, or one of the literal forms (sign, exponent, hexadecimal,
  surrounding blanks, Infinity) that the program never passes to \<^verbatim>\<open>Number\<close>.
\<close>

definition Number :: "string \<Rightarrow> jsnum" where
  "Number s =
     (let ip = takeWhile is_digit s; rest = dropWhile is_digit s in
      if rest = [] then Some (of_nat (dec_val ip))
      else if hd rest = CHR ''.'' \<and> list_all is_digit (tl rest) \<and> \<not> (ip = [] \<and> tl rest = [])
      then Some (of_nat (dec_val ip) + of_nat (dec_val (tl rest)) / 10 ^ length (tl rest))
      else None)"

text \<open>\<^verbatim>\<open>s.split(d)\<close> for a one-character separator: never the empty list.\<close>

fun split_on :: "char \<Rightarrow> string \<Rightarrow> string list" where
  "split_on d [] = [[]]"
| "split_on d (c # cs) =
     (if c = d then [] # split_on d cs
      else (case split_on d cs of [] \<Rightarrow> [[c]] | p # ps \<Rightarrow> (c # p) # ps))"

text \<open>\<^verbatim>\<open>n.toString()\<close> for an integer-valued number.\<close>

fun nat_toString :: "nat \<Rightarrow> string" where
  "nat_toString n =
     (if n < 10 then [digit_char n]
      else nat_toString (n div 10) @ [digit_char (n mod 10)])"

declare nat_toString.simps [simp del]

definition int_toString :: "int \<Rightarrow> string" where
  "int_toString i = (if i < 0 then CHR ''-'' # nat_toString (nat (- i)) else nat_toString (nat i))"

definition padStart :: "nat \<Rightarrow> char \<Rightarrow> string \<Rightarrow> string" where
  "padStart n c s = replicate (n - length s) c @ s"

text \<open>
  \<^verbatim>\<open>x.toFixed(3)\<close>: the integer \<open>n\<close> with \<open>n / 1000\<close> nearest to \<open>x\<close> (the larger one on a
  tie), printed with three fraction digits; a negative \<open>x\<close> is printed as \<open>-\<close> followed
  by the digits of \<open>- x\<close>. (Values from \<open>10\<^sup>2\<^sup>1\<close> on print in exponent form in the source;
  no timestamp is that large.)
\<close>

definition fixed3_digits :: "nat \<Rightarrow> string" where
  "fixed3_digits n =
     nat_toString (n div 1000) @ CHR ''.'' # padStart 3 CHR ''0'' (nat_toString (n mod 1000))"

definition toFixed3 :: "rat \<Rightarrow> string" where
  "toFixed3 x =
     (if x < 0 then CHR ''-'' # fixed3_digits (nat \<lfloor>- x * 1000 + 1 / 2\<rfloor>)
      else fixed3_digits (nat \<lfloor>x * 1000 + 1 / 2\<rfloor>))"

text \<open>
  The remainder operator \<^verbatim>\<open>%\<close> on numbers: the quotient is truncated towards zero, so the
  result has the sign of the dividend.
\<close>

definition js_trunc :: "rat \<Rightarrow> int" where
  "js_trunc q = (if q < 0 then \<lceil>q\<rceil> else \<lfloor>q\<rfloor>)"

definition js_rem :: "rat \<Rightarrow> rat \<Rightarrow> rat" where
  "js_rem x y = x - y * of_int (js_trunc (x / y))"

section \<open>Timestamps\<close>

text \<open>
  \<^verbatim>\<open>parseVTTTimestamp\<close>: split at the colons, convert every part, take the first three.
  With fewer than three parts a component is \<^verbatim>\<open>undefined\<close> and the sum is \<^verbatim>\<open>NaN\<close>.
\<close>

definition parseVTTTimestamp :: "string \<Rightarrow> jsnum" where
  "parseVTTTimestamp timestamp =
     (case map Number (split_on CHR '':'' timestamp) of
        Some hours # Some minutes # Some seconds # _ \<Rightarrow> Some (hours * 3600 + minutes * 60 + seconds)
      | _ \<Rightarrow> None)"

text \<open>
  \<^verbatim>\<open>formatVTTTimestamp\<close>. On \<^verbatim>\<open>NaN\<close> the three template parts are \<^verbatim>\<open>"NaN"\<close>, the last one
  padded to six characters.
\<close>

definition timestampTemplate :: "int \<Rightarrow> int \<Rightarrow> rat \<Rightarrow> string" where
  "timestampTemplate hours minutes remainingSeconds =
     padStart 2 CHR ''0'' (int_toString hours) @ CHR '':'' #
     padStart 2 CHR ''0'' (int_toString minutes) @ CHR '':'' #
     padStart 6 CHR ''0'' (toFixed3 remainingSeconds)"

fun formatVTTTimestamp :: "jsnum \<Rightarrow> string" where
  "formatVTTTimestamp None = ''NaN:NaN:000NaN''"
| "formatVTTTimestamp (Some seconds) =
     timestampTemplate \<lfloor>seconds / 3600\<rfloor> \<lfloor>js_rem seconds 3600 / 60\<rfloor> (js_rem seconds 60)"

text \<open>
  The timestamps the round trip is claimed for: \<^verbatim>\<open>HH:MM:SS.mmm\<close> with decimal digits,
  minutes and seconds below 60.
\<close>

fun wellFormedTimestamp :: "string \<Rightarrow> bool" where
  "wellFormedTimestamp [h1, h2, c1, m1, m2, c2, s1, s2, d, f1, f2, f3] \<longleftrightarrow>
     is_digit h1 \<and> is_digit h2 \<and> c1 = CHR '':'' \<and>
     is_digit m1 \<and> is_digit m2 \<and> c2 = CHR '':'' \<and>
     is_digit s1 \<and> is_digit s2 \<and> d = CHR ''.'' \<and>
     is_digit f1 \<and> is_digit f2 \<and> is_digit f3 \<and>
     dec_val [m1, m2] < 60 \<and> dec_val [s1, s2] < 60"
| "wellFormedTimestamp _ \<longleftrightarrow> False"

text \<open>
  \<^verbatim>\<open>s.trim()\<close> removes white space and line terminators at both ends; in ASCII these
  are tab, line feed, vertical tab, form feed, carriage return and space.
\<close>

definition is_space :: "char \<Rightarrow> bool" where
  "is_space c \<longleftrightarrow> c \<in> set [CHR 0x09, CHR 0x0A, CHR 0x0B, CHR 0x0C, CHR 0x0D, CHR 0x20]"

definition trim :: "string \<Rightarrow> string" where
  "trim s = rev (dropWhile is_space (rev (dropWhile is_space s)))"

text \<open>\<^verbatim>\<open>s.includes(pat)\<close>.\<close>

fun str_includes :: "string \<Rightarrow> string \<Rightarrow> bool" where
  "str_includes pat [] \<longleftrightarrow> pat = []"
| "str_includes pat (c # cs) \<longleftrightarrow> take (length pat) (c # cs) = pat \<or> str_includes pat cs"

text \<open>
  \<^verbatim>\<open>s.replace(pat, rep)\<close> with a string pattern: the first occurrence only. (The
  replacement strings of the program hold no \<^verbatim>\<open>$\<close>, which the source would interpret.)
\<close>

fun replace_first :: "string \<Rightarrow> string \<Rightarrow> string \<Rightarrow> string" where
  "replace_first pat rep [] = (if pat = [] then rep else [])"
| "replace_first pat rep (c # cs) =
     (if take (length pat) (c # cs) = pat then rep @ drop (length pat) (c # cs)
      else c # replace_first pat rep cs)"

text \<open>\<^verbatim>\<open>parts.join(sep)\<close>.\<close>

fun join :: "string \<Rightarrow> string list \<Rightarrow> string" where
  "join sep [] = []"
| "join sep [p] = p"
| "join sep (p # q # ps) = p @ sep @ join sep (q # ps)"

section \<open>Constants of the audio processing\<close>

definition MAX_FILE_SIZE :: nat where
  "MAX_FILE_SIZE = 25 * 1024 * 1024"

definition SEGMENT_DURATION :: rat where
  "SEGMENT_DURATION = 10 * 60 * 1000"

definition SEGMENT_OVERLAP :: rat where
  "SEGMENT_OVERLAP = 20 * 1000"

section \<open>Stitching cue tracks\<close>

text \<open>
  The regular expression of \<^verbatim>\<open>combineVTTTranscriptions\<close>,
  \<^verbatim>\<open>(\d{2}:\d{2}:\d{2}\.\d{3}) --> (\d{2}:\d{2}:\d{2}\.\d{3})\<close>: \<open>is_stamp\<close> is one group,
  \<open>match_here\<close> a match at the head of the string, \<open>timestampMatch\<close> the leftmost match
  (\<^verbatim>\<open>currentCue.match(...)\<close>), giving the two groups.
\<close>

fun is_stamp :: "string \<Rightarrow> bool" where
  "is_stamp [h1, h2, c1, m1, m2, c2, s1, s2, d, f1, f2, f3] \<longleftrightarrow>
     is_digit h1 \<and> is_digit h2 \<and> c1 = CHR '':'' \<and>
     is_digit m1 \<and> is_digit m2 \<and> c2 = CHR '':'' \<and>
     is_digit s1 \<and> is_digit s2 \<and> d = CHR ''.'' \<and>
     is_digit f1 \<and> is_digit f2 \<and> is_digit f3"
| "is_stamp _ \<longleftrightarrow> False"

definition match_here :: "string \<Rightarrow> (string \<times> string) option" where
  "match_here s =
     (if is_stamp (take 12 s) \<and> take 5 (drop 12 s) = '' --> '' \<and> is_stamp (take 12 (drop 17 s))
      then Some (take 12 s, take 12 (drop 17 s)) else None)"

fun timestampMatch :: "string \<Rightarrow> (string \<times> string) option" where
  "timestampMatch [] = None"
| "timestampMatch (c # cs) =
     (case match_here (c # cs) of Some m \<Rightarrow> Some m | None \<Rightarrow> timestampMatch cs)"

text \<open>Adding the offset to a parsed time, and \<^verbatim>\<open>>=\<close>: a comparison with \<^verbatim>\<open>NaN\<close> is false.\<close>

definition js_add :: "jsnum \<Rightarrow> rat \<Rightarrow> jsnum" where
  "js_add x y = map_option (\<lambda>v. v + y) x"

definition js_ge :: "jsnum \<Rightarrow> rat \<Rightarrow> bool" where
  "js_ge x y = (case x of None \<Rightarrow> False | Some v \<Rightarrow> y \<le> v)"

text \<open>
  The body of \<^verbatim>\<open>if (currentCue)\<close>: what one cue block contributes to the output. The
  result is \<open>None\<close> when nothing is appended (no timestamp line, or a start inside the
  overlap region of a later segment), else the shifted start, the shifted end and the
  text \<^verbatim>\<open>adjustedCue.trim()\<close> that is appended, followed by a blank line.
\<close>

record cue =
  cue_start :: jsnum
  cue_end :: jsnum
  cue_block :: string

definition adjustCue :: "nat \<Rightarrow> rat \<Rightarrow> string \<Rightarrow> cue option" where
  "adjustCue i timeOffset currentCue =
     (case timestampMatch currentCue of
        None \<Rightarrow> None
      | Some (t1, t2) \<Rightarrow>
          (let startTime = js_add (parseVTTTimestamp t1) timeOffset;
               endTime = js_add (parseVTTTimestamp t2) timeOffset
           in if i = 0 \<or> js_ge startTime (timeOffset + SEGMENT_OVERLAP / 1000)
              then Some \<lparr>cue_start = startTime, cue_end = endTime,
                     cue_block = trim (replace_first (t1 @ '' --> '' @ t2)
                       (formatVTTTimestamp startTime @ '' --> '' @ formatVTTTimestamp endTime)
                       currentCue)\<rparr>
              else None))"

text \<open>
  The loop \<^verbatim>\<open>for (const line of lines)\<close> of one segment, started with the cue block
  collected so far; it returns the cues it appends, in order. A block that no blank line
  follows is never appended.
\<close>

fun cueLoop :: "nat \<Rightarrow> rat \<Rightarrow> string \<Rightarrow> string list \<Rightarrow> cue list" where
  "cueLoop i timeOffset currentCue [] = []"
| "cueLoop i timeOffset currentCue (line # lines) =
     (if trim line = []
      then (if currentCue \<noteq> []
            then (case adjustCue i timeOffset currentCue of None \<Rightarrow> [] | Some c \<Rightarrow> [c]) @
                 cueLoop i timeOffset [] lines
            else cueLoop i timeOffset currentCue lines)
      else cueLoop i timeOffset (currentCue @ line @ [CHR 0x0A]) lines)"

text \<open>
  The lines of segment \<open>i\<close> that the cue loop reads: the first segment loses its first two
  lines (\<^verbatim>\<open>lines.shift()\<close> twice), the header and the line after it.
\<close>

definition segmentLines :: "nat \<Rightarrow> string \<Rightarrow> string list" where
  "segmentLines i transcription =
     (let lines = split_on CHR 0x0A transcription in if i = 0 then drop 2 lines else lines)"

definition segmentCues :: "nat \<Rightarrow> rat \<Rightarrow> string \<Rightarrow> cue list" where
  "segmentCues i timeOffset transcription = cueLoop i timeOffset [] (segmentLines i transcription)"

definition renderCues :: "cue list \<Rightarrow> string" where
  "renderCues cs = concat (map (\<lambda>c. cue_block c @ [CHR 0x0A, CHR 0x0A]) cs)"

text \<open>
  The outer loop of \<^verbatim>\<open>combineVTTTranscriptions\<close> from segment \<open>i\<close> on, on the state
  \<open>(combined, timeOffset)\<close>.
\<close>

fun combineVTTLoop :: "nat \<Rightarrow> string list \<Rightarrow> string \<times> rat \<Rightarrow> string \<times> rat" where
  "combineVTTLoop i [] st = st"
| "combineVTTLoop i (transcription # rest) (combined, timeOffset) =
     (let header = (if i = 0 then hd (split_on CHR 0x0A transcription) @ [CHR 0x0A, CHR 0x0A] else [])
      in combineVTTLoop (Suc i) rest
           (combined @ header @ renderCues (segmentCues i timeOffset transcription),
            timeOffset + (SEGMENT_DURATION / 1000 - SEGMENT_OVERLAP / 1000)))"

definition combineVTTTranscriptions :: "string list \<Rightarrow> string" where
  "combineVTTTranscriptions transcriptions = trim (fst (combineVTTLoop 0 transcriptions ([], 0)))"

text \<open>The cues that the outer loop appends from segment \<open>i\<close> on, in output order.\<close>

fun stitchedCues :: "nat \<Rightarrow> rat \<Rightarrow> string list \<Rightarrow> cue list" where
  "stitchedCues i timeOffset [] = []"
| "stitchedCues i timeOffset (transcription # rest) =
     segmentCues i timeOffset transcription @
     stitchedCues (Suc i) (timeOffset + (SEGMENT_DURATION / 1000 - SEGMENT_OVERLAP / 1000)) rest"

section \<open>Stitching structured transcripts\<close>

text \<open>
  The interfaces \<^verbatim>\<open>Word\<close> and \<^verbatim>\<open>TranscriptionResponse\<close>; the fields \<^verbatim>\<open>start\<close>, \<^verbatim>\<open>end\<close>,
  \<^verbatim>\<open>text\<close>, \<^verbatim>\<open>id\<close> carry a prefix here. A JSON text is represented by the value it
  denotes: \<^verbatim>\<open>JSON.stringify\<close> and \<^verbatim>\<open>JSON.parse\<close> are inverse to each other on these values.
\<close>

record Word =
  word :: string
  word_start :: rat
  word_end :: rat

record Segment =
  seg_id :: nat
  seg_start :: rat
  seg_end :: rat
  seg_text :: string

record TranscriptionResponse =
  tr_text :: string
  tr_words :: "Word list"
  tr_segments :: "Segment list"

datatype error = Error string | TypeError string

text \<open>
  The loop of \<^verbatim>\<open>combineJSONTranscriptions\<close> on the state \<open>(combined, timeOffset)\<close>. Reading
  \<^verbatim>\<open>.end\<close> of the last entry of an empty \<^verbatim>\<open>segments\<close> array throws a \<^verbatim>\<open>TypeError\<close>, after the
  segment's items have been appended.
\<close>

fun combineJSONLoop ::
  "TranscriptionResponse list \<Rightarrow> TranscriptionResponse \<times> rat \<Rightarrow> error + TranscriptionResponse \<times> rat"
where
  "combineJSONLoop [] st = Inr st"
| "combineJSONLoop (data # rest) (combined, timeOffset) =
     (let combined' = \<lparr>
            tr_text = tr_text combined @ tr_text data @ '' '',
            tr_words = tr_words combined @
              map (\<lambda>w. w\<lparr>word_start := word_start w + timeOffset, word_end := word_end w + timeOffset\<rparr>)
                (tr_words data),
            tr_segments = tr_segments combined @
              map (\<lambda>s. s\<lparr>seg_start := seg_start s + timeOffset, seg_end := seg_end s + timeOffset\<rparr>)
                (tr_segments data)\<rparr>
      in if tr_segments data = []
         then Inl (TypeError ''Cannot read properties of undefined (reading 'end')'')
         else combineJSONLoop rest (combined', seg_end (last (tr_segments data))))"

definition combineJSONTranscriptions :: "TranscriptionResponse list \<Rightarrow> error + TranscriptionResponse" where
  "combineJSONTranscriptions transcriptions =
     (case combineJSONLoop transcriptions (\<lparr>tr_text = [], tr_words = [], tr_segments = []\<rparr>, 0) of
        Inl e \<Rightarrow> Inl e
      | Inr (combined, timeOffset) \<Rightarrow> Inr combined)"

section \<open>The pipeline\<close>

text \<open>
  The byte payloads (\<^verbatim>\<open>Buffer\<close>), the two output formats, and a transcription as
  \<^verbatim>\<open>transcribeAudioSegment\<close> returns it: the cue-track text, or the JSON text of a response,
  represented by its value.
\<close>

type_synonym buffer = "8 word list"

datatype format = Vtt | Json

datatype transcript = VttDoc string | JsonDoc TranscriptionResponse

text \<open>The form fields and the header of one request to the transcription service.\<close>

record request =
  req_file :: buffer
  req_model :: string
  req_language :: string
  req_prompt :: "string option"
  req_response_format :: string
  req_timestamp_granularities :: "string list"
  req_authorization :: string

text \<open>What the \<^verbatim>\<open>catch\<close> block reads from a failed request.\<close>

record fetch_error =
  fe_status :: "nat option"
  fe_data_message :: "string option"
  fe_message :: string

text \<open>
  The collaborators of the pipeline: the temporary directory of the system, the duration
  probe (an error, or the duration if the metadata has one), the clip extraction (an error, or
  the bytes of the clip written), and the transcription service in its two response formats.
  The service may answer the same request differently over time, so it also receives the
  number of requests sent before.
\<close>

record env =
  tmpdir :: string
  ffprobe :: "buffer \<Rightarrow> string + rat option"
  ffmpeg :: "buffer \<Rightarrow> rat \<Rightarrow> rat \<Rightarrow> string + buffer"
  fetch_vtt :: "nat \<Rightarrow> request \<Rightarrow> fetch_error + string"
  fetch_json :: "nat \<Rightarrow> request \<Rightarrow> fetch_error + TranscriptionResponse"

text \<open>
  The state the pipeline acts on: the files that exist, the requests sent so far, and the
  extraction commands run so far (start time, duration, output path).
\<close>

record world =
  files :: "string \<rightharpoonup> buffer"
  requests :: "request list"
  ffmpeg_runs :: "(rat \<times> rat \<times> string) list"

text \<open>
  How an asynchronous call ends: it returns, it throws, or its promise is never settled.
\<close>

datatype 'a outcome = Returned 'a | Threw error | Unsettled

text \<open>\<^verbatim>\<open>join(a, b)\<close> of the path module, on a directory without trailing separator.\<close>

definition path_join :: "string \<Rightarrow> string \<Rightarrow> string" where
  "path_join a b = a @ CHR ''/'' # b"

definition tempDir :: "env \<Rightarrow> string" where
  "tempDir e = path_join (tmpdir e) ''audio-segments''"

definition inputPath :: "env \<Rightarrow> string" where
  "inputPath e = path_join (tempDir e) ''input.mp3''"

definition outputPath :: "env \<Rightarrow> string" where
  "outputPath e = path_join (tempDir e) ''segment-%d.mp3''"

definition segmentPath :: "env \<Rightarrow> nat \<Rightarrow> string" where
  "segmentPath e segmentIndex = replace_first ''%d'' (nat_toString segmentIndex) (outputPath e)"

text \<open>
  The loop \<^verbatim>\<open>while (currentTime < duration)\<close> of \<^verbatim>\<open>splitAudioFile\<close>. A failed extraction
  rejects inside the asynchronous probe callback: the loop stops with the error.
\<close>

function segmentLoop ::
  "env \<Rightarrow> buffer \<Rightarrow> rat \<Rightarrow> rat \<Rightarrow> nat \<Rightarrow> string list \<Rightarrow> world \<Rightarrow> world \<times> (string + string list)"
where
  "segmentLoop e input duration currentTime segmentIndex segments w =
     (if currentTime < duration
      then (case ffmpeg e input (max 0 (currentTime - SEGMENT_OVERLAP / 1000)) (SEGMENT_DURATION / 1000) of
              Inl err \<Rightarrow>
                (w\<lparr>ffmpeg_runs := ffmpeg_runs w @
                     [(max 0 (currentTime - SEGMENT_OVERLAP / 1000), SEGMENT_DURATION / 1000,
                       segmentPath e segmentIndex)]\<rparr>,
                 Inl err)
            | Inr clip \<Rightarrow>
                segmentLoop e input duration (currentTime + SEGMENT_DURATION / 1000) (Suc segmentIndex)
                  (segments @ [segmentPath e segmentIndex])
                  (w\<lparr>files := (files w)(segmentPath e segmentIndex \<mapsto> clip),
                     ffmpeg_runs := ffmpeg_runs w @
                       [(max 0 (currentTime - SEGMENT_OVERLAP / 1000), SEGMENT_DURATION / 1000,
                         segmentPath e segmentIndex)]\<rparr>))
      else (w, Inr segments))"
  by pat_completeness auto
termination
proof (relation "measure (\<lambda>(e, input, duration, currentTime, segmentIndex, segments, w).
    nat \<lceil>(duration - currentTime) / 600\<rceil>)")
  show "wf (measure (\<lambda>(e, input, duration, currentTime, segmentIndex, segments, w).
    nat \<lceil>(duration - currentTime) / 600\<rceil>))"
    by simp
next
  fix e :: env and input :: buffer and duration currentTime :: rat and segmentIndex :: nat
    and segments :: "string list" and w :: world and clip :: buffer
  assume lt: "currentTime < duration"
  have e: "(duration - (currentTime + SEGMENT_DURATION / 1000)) / 600 = (duration - currentTime) / 600 - 1"
    by (simp add: SEGMENT_DURATION_def field_simps)
  have c: "\<lceil>(duration - (currentTime + SEGMENT_DURATION / 1000)) / 600\<rceil> =
      \<lceil>(duration - currentTime) / 600\<rceil> - 1"
    unfolding e by (rule ceiling_diff_one)
  have "0 < (duration - currentTime) / 600" using lt by simp
  then have "0 < \<lceil>(duration - currentTime) / 600\<rceil>" by simp
  with c show "((e, input, duration, currentTime + SEGMENT_DURATION / 1000, Suc segmentIndex,
       segments @ [segmentPath e segmentIndex],
       w\<lparr>files := (files w)(segmentPath e segmentIndex \<mapsto> clip),
          ffmpeg_runs := ffmpeg_runs w @
            [(max 0 (currentTime - SEGMENT_OVERLAP / 1000), SEGMENT_DURATION / 1000,
              segmentPath e segmentIndex)]\<rparr>),
      (e, input, duration, currentTime, segmentIndex, segments, w))
    \<in> measure (\<lambda>(e, input, duration, currentTime, segmentIndex, segments, w).
          nat \<lceil>(duration - currentTime) / 600\<rceil>)"
    by simp
qed

declare segmentLoop.simps [simp del]

text \<open>
  \<^verbatim>\<open>splitAudioFile\<close>: the input is written to a temporary file and probed. A probe error
  removes the input file and rejects. Otherwise the clips are extracted, the input file is
  removed and the clip paths are the result; \<^verbatim>\<open>duration || 0\<close> reads a missing duration as 0.
  When an extraction fails, the rejection is raised inside the asynchronous callback, where
  nothing handles it: the input file stays and the promise is never settled.
\<close>

definition splitAudioFile :: "env \<Rightarrow> buffer \<Rightarrow> world \<Rightarrow> world \<times> string list outcome" where
  "splitAudioFile e audioBuffer w =
     (case ffprobe e audioBuffer of
        Inl err \<Rightarrow> (w\<lparr>files := (files w)(inputPath e := None)\<rparr>, Threw (Error err))
      | Inr metadata \<Rightarrow>
          (case segmentLoop e audioBuffer (case metadata of None \<Rightarrow> 0 | Some d \<Rightarrow> d) 0 0 []
                  (w\<lparr>files := (files w)(inputPath e \<mapsto> audioBuffer)\<rparr>) of
             (w', Inl err) \<Rightarrow> (w', Unsettled)
           | (w', Inr segments) \<Rightarrow> (w'\<lparr>files := (files w')(inputPath e := None)\<rparr>, Returned segments)))"

text \<open>\<^verbatim>\<open>extractTextFromVTT\<close>: the lines that are neither header, timestamp nor blank.\<close>

definition isTextLine :: "string \<Rightarrow> bool" where
  "isTextLine l \<longleftrightarrow>
     \<not> str_includes ''-->'' l \<and> take 6 l \<noteq> ''WEBVTT'' \<and> trim l \<noteq> [] \<and>
     \<not> (3 \<le> length l \<and> is_digit (l ! 0) \<and> is_digit (l ! 1) \<and> l ! 2 = CHR '':'')"

definition extractTextFromVTT :: "string \<Rightarrow> string" where
  "extractTextFromVTT vtt =
     trim (concat (map (\<lambda>l. CHR '' '' # trim l) (filter isTextLine (split_on CHR 0x0A vtt))))"

text \<open>
  The request of \<^verbatim>\<open>transcribeAudioSegment\<close>: the prompt field is sent only when the prompt
  is not empty.
\<close>

definition makeRequest :: "buffer \<Rightarrow> string \<Rightarrow> string \<Rightarrow> string \<Rightarrow> format \<Rightarrow> string \<Rightarrow> request" where
  "makeRequest audioBuffer apiKey model language fmt prompt =
     \<lparr>req_file = audioBuffer, req_model = model, req_language = language,
      req_prompt = (if prompt \<noteq> [] then Some prompt else None),
      req_response_format = (case fmt of Vtt \<Rightarrow> ''vtt'' | Json \<Rightarrow> ''verbose_json''),
      req_timestamp_granularities = (case fmt of Vtt \<Rightarrow> [] | Json \<Rightarrow> [''word'']),
      req_authorization = ''Bearer '' @ apiKey\<rparr>"

text \<open>The \<^verbatim>\<open>catch\<close> block: the error thrown for a failed request.\<close>

definition rethrow :: "fetch_error \<Rightarrow> error" where
  "rethrow err =
     (if fe_status err = Some 400
      then Error (''Bad Request: '' @
             (case fe_data_message err of
                None \<Rightarrow> fe_message err
              | Some m \<Rightarrow> if m = [] then fe_message err else m))
      else if fe_status err = Some 401
      then Error ''Authentication failed. Please check your API key.''
      else if fe_status err = Some 429
      then Error ''Rate limit exceeded. Please try again later.''
      else Error (''Transcription failed: '' @ fe_message err))"

definition transcribeAudioSegment ::
  "env \<Rightarrow> buffer \<Rightarrow> string \<Rightarrow> string \<Rightarrow> string \<Rightarrow> format \<Rightarrow> string \<Rightarrow> world \<Rightarrow> world \<times> transcript outcome"
where
  "transcribeAudioSegment e audioBuffer apiKey model language fmt prompt w =
     (w\<lparr>requests := requests w @ [makeRequest audioBuffer apiKey model language fmt prompt]\<rparr>,
      (case fmt of
         Vtt \<Rightarrow>
           (case fetch_vtt e (length (requests w))
                   (makeRequest audioBuffer apiKey model language fmt prompt) of
              Inl err \<Rightarrow> Threw (rethrow err)
            | Inr response \<Rightarrow> Returned (VttDoc response))
       | Json \<Rightarrow>
           (case fetch_json e (length (requests w))
                   (makeRequest audioBuffer apiKey model language fmt prompt) of
              Inl err \<Rightarrow> Threw (rethrow err)
            | Inr response \<Rightarrow> Returned (JsonDoc response))))"

text \<open>
  The prompt of segment \<open>i\<close>. \<open>None\<close> is the initial, empty \<^verbatim>\<open>previousTranscription\<close>; a
  cue-track text counts as present when it is not empty, a JSON text always. A
  transcription has the shape of the format it was requested in, so the test
  \<^verbatim>\<open>format === 'json'\<close> is the case distinction on the document.
\<close>

definition contextText :: "string \<Rightarrow> string" where
  "contextText previousText =
     join '' '' (drop (length (split_on CHR '' '' previousText) - 50) (split_on CHR '' '' previousText))"

fun segmentPrompt :: "string \<Rightarrow> nat \<Rightarrow> transcript option \<Rightarrow> string" where
  "segmentPrompt prompt i None = prompt"
| "segmentPrompt prompt i (Some (VttDoc previousTranscription)) =
     (if 0 < i \<and> previousTranscription \<noteq> []
      then prompt @ '' Previous context: '' @ contextText (extractTextFromVTT previousTranscription)
      else prompt)"
| "segmentPrompt prompt i (Some (JsonDoc previousTranscription)) =
     (if 0 < i
      then prompt @ '' Previous context: '' @ contextText (tr_text previousTranscription)
      else prompt)"

text \<open>
  The loop \<^verbatim>\<open>for (let i = 0; i < segments.length; i++)\<close> of \<^verbatim>\<open>transcribeAudio\<close>, from
  segment \<open>i\<close> on. Reading a clip file that does not exist throws.
\<close>

fun transcribeLoop ::
  "env \<Rightarrow> string \<Rightarrow> string \<Rightarrow> string \<Rightarrow> format \<Rightarrow> string \<Rightarrow> nat \<Rightarrow> string list \<Rightarrow>
   transcript option \<Rightarrow> transcript list \<Rightarrow> world \<Rightarrow> world \<times> transcript list outcome"
where
  "transcribeLoop e apiKey model language fmt prompt i [] previousTranscription transcriptions w =
     (w, Returned transcriptions)"
| "transcribeLoop e apiKey model language fmt prompt i (segment # rest) previousTranscription
     transcriptions w =
     (case files w segment of
        None \<Rightarrow> (w, Threw (Error (''ENOENT: no such file or directory, open '' @ segment)))
      | Some segmentBuffer \<Rightarrow>
          (case transcribeAudioSegment e segmentBuffer apiKey model language fmt
                  (segmentPrompt prompt i previousTranscription) w of
             (w', Returned transcription) \<Rightarrow>
               transcribeLoop e apiKey model language fmt prompt (Suc i) rest (Some transcription)
                 (transcriptions @ [transcription]) w'
           | (w', Threw err) \<Rightarrow> (w', Threw err)
           | (w', Unsettled) \<Rightarrow> (w', Unsettled)))"

text \<open>
  The last step of \<^verbatim>\<open>transcribeAudio\<close>. In the \<^verbatim>\<open>vtt\<close> format every transcription is a cue
  track, in the \<^verbatim>\<open>json\<close> format a response; the other cases of the two projections are
  never reached.
\<close>

fun the_vtt :: "transcript \<Rightarrow> string" where
  "the_vtt (VttDoc s) = s"
| "the_vtt (JsonDoc r) = []"

fun the_json :: "transcript \<Rightarrow> TranscriptionResponse" where
  "the_json (JsonDoc r) = r"
| "the_json (VttDoc s) = \<lparr>tr_text = [], tr_words = [], tr_segments = []\<rparr>"

definition combineTranscriptions :: "format \<Rightarrow> transcript list \<Rightarrow> transcript outcome" where
  "combineTranscriptions fmt transcriptions =
     (case fmt of
        Vtt \<Rightarrow> Returned (VttDoc (combineVTTTranscriptions (map the_vtt transcriptions)))
      | Json \<Rightarrow>
          (case combineJSONTranscriptions (map the_json transcriptions) of
             Inl err \<Rightarrow> Threw err
           | Inr combined \<Rightarrow> Returned (JsonDoc combined)))"

text \<open>The path of \<^verbatim>\<open>transcribeAudio\<close> for a file above the size limit.\<close>

definition transcribeSegmented ::
  "env \<Rightarrow> buffer \<Rightarrow> string \<Rightarrow> string \<Rightarrow> string \<Rightarrow> format \<Rightarrow> string \<Rightarrow> world \<Rightarrow> world \<times> transcript outcome"
where
  "transcribeSegmented e audioBuffer apiKey model language fmt prompt w =
     (case splitAudioFile e audioBuffer w of
        (w1, Threw err) \<Rightarrow> (w1, Threw err)
      | (w1, Unsettled) \<Rightarrow> (w1, Unsettled)
      | (w1, Returned segments) \<Rightarrow>
          (case transcribeLoop e apiKey model language fmt prompt 0 segments None [] w1 of
             (w2, Threw err) \<Rightarrow> (w2, Threw err)
           | (w2, Unsettled) \<Rightarrow> (w2, Unsettled)
           | (w2, Returned transcriptions) \<Rightarrow> (w2, combineTranscriptions fmt transcriptions)))"

definition transcribeAudio ::
  "env \<Rightarrow> buffer \<Rightarrow> string \<Rightarrow> string \<Rightarrow> string \<Rightarrow> format \<Rightarrow> string \<Rightarrow> world \<Rightarrow> world \<times> transcript outcome"
where
  "transcribeAudio e audioBuffer apiKey model language fmt prompt w =
     (if length audioBuffer \<le> MAX_FILE_SIZE
      then transcribeAudioSegment e audioBuffer apiKey model language fmt prompt w
      else transcribeSegmented e audioBuffer apiKey model language fmt prompt w)"

text \<open>
  A request counts as answered when the service returns a response for it, in the format of
  the run.
\<close>

definition answered :: "env \<Rightarrow> format \<Rightarrow> nat \<Rightarrow> request \<Rightarrow> bool" where
  "answered e fmt n r =
     (case fmt of
        Vtt \<Rightarrow> (case fetch_vtt e n r of Inl err \<Rightarrow> False | Inr response \<Rightarrow> True)
      | Json \<Rightarrow> (case fetch_json e n r of Inl err \<Rightarrow> False | Inr response \<Rightarrow> True))"

section \<open>Sample inputs\<close>

text \<open>
  Two structured responses for clips that overlap: the second clip starts with the words
  the first one ends with.
\<close>

definition clipA :: TranscriptionResponse where
  "clipA = \<lparr>tr_text = ''Hello world.'',
     tr_words = [\<lparr>word = ''Hello'', word_start = 0, word_end = 590\<rparr>,
                 \<lparr>word = ''world.'', word_start = 590, word_end = 600\<rparr>],
     tr_segments = [\<lparr>seg_id = 0, seg_start = 0, seg_end = 590, seg_text = ''Hello''\<rparr>,
                    \<lparr>seg_id = 1, seg_start = 590, seg_end = 600, seg_text = ''world.''\<rparr>]\<rparr>"

definition clipB :: TranscriptionResponse where
  "clipB = \<lparr>tr_text = ''world. Bye.'',
     tr_words = [\<lparr>word = ''world.'', word_start = 10, word_end = 20\<rparr>,
                 \<lparr>word = ''Bye.'', word_start = 20, word_end = 600\<rparr>],
     tr_segments = [\<lparr>seg_id = 0, seg_start = 10, seg_end = 20, seg_text = ''world.''\<rparr>,
                    \<lparr>seg_id = 1, seg_start = 20, seg_end = 600, seg_text = ''Bye.''\<rparr>]\<rparr>"

text \<open>Three structured responses, each with its entries in order.\<close>

definition part1 :: TranscriptionResponse where
  "part1 = \<lparr>tr_text = ''one'', tr_words = [\<lparr>word = ''one'', word_start = 0, word_end = 600\<rparr>],
     tr_segments = [\<lparr>seg_id = 0, seg_start = 0, seg_end = 600, seg_text = ''one''\<rparr>]\<rparr>"

definition part2 :: TranscriptionResponse where
  "part2 = \<lparr>tr_text = ''two three'',
     tr_words = [\<lparr>word = ''two'', word_start = 30, word_end = 300\<rparr>,
                 \<lparr>word = ''three'', word_start = 300, word_end = 600\<rparr>],
     tr_segments = [\<lparr>seg_id = 0, seg_start = 30, seg_end = 300, seg_text = ''two''\<rparr>,
                    \<lparr>seg_id = 1, seg_start = 300, seg_end = 600, seg_text = ''three''\<rparr>]\<rparr>"

definition part3 :: TranscriptionResponse where
  "part3 = \<lparr>tr_text = ''four'', tr_words = [\<lparr>word = ''four'', word_start = 30, word_end = 320\<rparr>],
     tr_segments = [\<lparr>seg_id = 0, seg_start = 30, seg_end = 320, seg_text = ''four''\<rparr>]\<rparr>"

text \<open>A cue track with one cue that ends five seconds into the clip.\<close>

definition shortTrack :: string where
  "shortTrack = ''WEBVTT\<newline>\<newline>00:00:00.000 --> 00:00:05.000\<newline>Hello\<newline>\<newline>''"

text \<open>
  A 1500 second recording: the probe reports 1500 seconds and every extraction succeeds. The
  world before the run has no files and no requests.
\<close>

definition noReply :: fetch_error where
  "noReply = \<lparr>fe_status = None, fe_data_message = None, fe_message = ''offline''\<rparr>"

definition probe1500 :: env where
  "probe1500 = \<lparr>tmpdir = ''/tmp'', ffprobe = (\<lambda>b. Inr (Some 1500)), ffmpeg = (\<lambda>b s d. Inr []),
     fetch_vtt = (\<lambda>n r. Inl noReply), fetch_json = (\<lambda>n r. Inl noReply)\<rparr>"

definition emptyWorld :: world where
  "emptyWorld = \<lparr>files = Map.empty, requests = [], ffmpeg_runs = []\<rparr>"

text \<open>
  What a transcriber that returns one cue per 100 seconds of its clip returns for the three
  clips of that recording: six cues for each of the two clips of 600 seconds, four for the
  last clip, which ends with the recording after 320 seconds.
\<close>

definition trackA :: string where
  "trackA = ''WEBVTT\<newline>\<newline>00:00:00.000 --> 00:01:40.000\<newline>a0\<newline>\<newline>00:01:40.000 --> 00:03:20.000\<newline>a1\<newline>\<newline>00:03:20.000 --> 00:05:00.000\<newline>a2\<newline>\<newline>00:05:00.000 --> 00:06:40.000\<newline>a3\<newline>\<newline>00:06:40.000 --> 00:08:20.000\<newline>a4\<newline>\<newline>00:08:20.000 --> 00:10:00.000\<newline>a5\<newline>\<newline>''"

definition trackB :: string where
  "trackB = ''WEBVTT\<newline>\<newline>00:00:00.000 --> 00:01:40.000\<newline>b0\<newline>\<newline>00:01:40.000 --> 00:03:20.000\<newline>b1\<newline>\<newline>00:03:20.000 --> 00:05:00.000\<newline>b2\<newline>\<newline>00:05:00.000 --> 00:06:40.000\<newline>b3\<newline>\<newline>00:06:40.000 --> 00:08:20.000\<newline>b4\<newline>\<newline>00:08:20.000 --> 00:10:00.000\<newline>b5\<newline>\<newline>''"

definition trackC :: string where
  "trackC = ''WEBVTT\<newline>\<newline>00:00:00.000 --> 00:01:40.000\<newline>c0\<newline>\<newline>00:01:40.000 --> 00:03:20.000\<newline>c1\<newline>\<newline>00:03:20.000 --> 00:05:00.000\<newline>c2\<newline>\<newline>00:05:00.000 --> 00:05:20.000\<newline>c3\<newline>\<newline>''"

text \<open>
  Runs on the recording of 1500 seconds, with a payload one byte above the size limit, and
  three cue-track services: one that answers every request with a track of one cue from
  second 30 to second 40 of the clip, one whose second answer is an error page instead of a
  cue track, and one that refuses the second request with status 429.
\<close>

definition bigBuffer :: buffer where
  "bigBuffer = replicate 26214401 0"

definition replyTrack :: string where
  "replyTrack = ''WEBVTT\<newline>\<newline>00:00:30.000 --> 00:00:40.000\<newline>hi\<newline>\<newline>''"

definition serviceEnv :: "(nat \<Rightarrow> request \<Rightarrow> fetch_error + string) \<Rightarrow> env" where
  "serviceEnv service = \<lparr>tmpdir = ''/tmp'', ffprobe = (\<lambda>b. Inr (Some 1500)), ffmpeg = (\<lambda>b s d. Inr []),
     fetch_vtt = service, fetch_json = (\<lambda>n r. Inl noReply)\<rparr>"

definition goodService :: "nat \<Rightarrow> request \<Rightarrow> fetch_error + string" where
  "goodService n r = Inr replyTrack"

definition garbledService :: "nat \<Rightarrow> request \<Rightarrow> fetch_error + string" where
  "garbledService n r = (if n = 1 then Inr ''<html>502 Bad Gateway</html>'' else Inr replyTrack)"

definition limitedService :: "nat \<Rightarrow> request \<Rightarrow> fetch_error + string" where
  "limitedService n r =
     (if n = 1
      then Inl \<lparr>fe_status = Some 429, fe_data_message = None, fe_message = ''429 Too Many Requests''\<rparr>
      else Inr replyTrack)"

section \<open>Cue times of a clip\<close>

text \<open>
  The cue blocks that the cue loop of \<^verbatim>\<open>combineVTTTranscriptions\<close> completes, in order: the
  values of \<^verbatim>\<open>currentCue\<close> at the blank lines where it is not empty.
\<close>

fun cueBlocks :: "string \<Rightarrow> string list \<Rightarrow> string list" where
  "cueBlocks currentCue [] = []"
| "cueBlocks currentCue (line # lines) =
     (if trim line = []
      then (if currentCue \<noteq> [] then currentCue # cueBlocks [] lines else cueBlocks currentCue lines)
      else cueBlocks (currentCue @ line @ [CHR 0x0A]) lines)"

text \<open>
  The start and end of a block in the clip's own time, when the block has a timestamp
  line, and the cue times of segment \<open>i\<close> as its transcription gives them.
\<close>

definition blockTimes :: "string \<Rightarrow> (rat \<times> rat) option" where
  "blockTimes block =
     (case timestampMatch block of
        None \<Rightarrow> None
      | Some (t1, t2) \<Rightarrow>
          (case (parseVTTTimestamp t1, parseVTTTimestamp t2) of
             (Some a, Some b) \<Rightarrow> Some (a, b)
           | _ \<Rightarrow> None))"

definition clipCues :: "nat \<Rightarrow> string \<Rightarrow> (rat \<times> rat) list" where
  "clipCues i transcription = List.map_filter blockTimes (cueBlocks [] (segmentLines i transcription))"

text \<open>
  A list of time ranges is in order between \<open>lo\<close> and \<open>hi\<close>: every range starts at or after
  the end of the one before (the first at \<open>lo\<close> or later), ends after its start, and the
  last ends at \<open>hi\<close> or earlier.
\<close>

fun inOrder :: "rat \<Rightarrow> rat \<Rightarrow> (rat \<times> rat) list \<Rightarrow> bool" where
  "inOrder lo hi [] \<longleftrightarrow> lo \<le> hi"
| "inOrder lo hi ((s, e) # cs) \<longleftrightarrow> lo \<le> s \<and> s < e \<and> inOrder e hi cs"

section \<open>Timestamp round trip\<close>

lemma digit_char_digit_val: "is_digit c \<Longrightarrow> digit_char (digit_val c) = c"
  by (simp add: is_digit_def digit_char_def digit_val_def)

lemma digit_val_less: "is_digit c \<Longrightarrow> digit_val c < 10"
  by (auto simp: is_digit_def digit_val_def)

lemma is_digit_not_colon: "is_digit c \<Longrightarrow> c \<noteq> CHR '':''"
  by (auto simp: is_digit_def)

lemma not_digit_dot: "\<not> is_digit CHR ''.''"
  by (simp add: is_digit_def)

lemma digit_char_0: "digit_char 0 = CHR ''0''"
  by code_simp

lemma padStart2_nat: "n < 100 \<Longrightarrow>
  padStart 2 CHR ''0'' (nat_toString n) = [digit_char (n div 10), digit_char (n mod 10)]"
  by (subst nat_toString.simps, subst nat_toString.simps)
     (auto simp: padStart_def digit_char_0)

lemma padStart3_nat: "n < 1000 \<Longrightarrow>
  padStart 3 CHR ''0'' (nat_toString n) =
    [digit_char (n div 100), digit_char (n div 10 mod 10), digit_char (n mod 10)]"
proof -
  assume n: "n < 1000"
  have d: "n div 10 div 10 = n div 100"
    by (simp add: div_mult2_eq [symmetric])
  show ?thesis
    using n
    by (subst nat_toString.simps, subst nat_toString.simps, subst nat_toString.simps)
       (auto simp: padStart_def digit_char_0 d numeral_3_eq_3)
qed

lemma Number_2: "is_digit a \<Longrightarrow> is_digit b \<Longrightarrow>
  Number [a, b] = Some (of_nat (10 * digit_val a + digit_val b))"
  by (simp add: Number_def dec_val_def)

lemma Number_2_3: "is_digit a \<Longrightarrow> is_digit b \<Longrightarrow> is_digit f \<Longrightarrow> is_digit g \<Longrightarrow> is_digit h \<Longrightarrow>
  Number [a, b, CHR ''.'', f, g, h] =
    Some (of_nat (10 * digit_val a + digit_val b) +
          of_nat (100 * digit_val f + 10 * digit_val g + digit_val h) / 1000)"
  by (simp add: Number_def dec_val_def not_digit_dot)

lemma two_digits:
  fixes a b :: nat
  assumes "b < 10"
  shows "(10 * a + b) div 10 = a" and "(10 * a + b) mod 10 = b"
  using assms by simp_all

lemma three_digits:
  fixes a b c :: nat
  assumes "b < 10" "c < 10"
  shows "(100 * a + 10 * b + c) div 100 = a"
    and "(100 * a + 10 * b + c) div 10 mod 10 = b"
    and "(100 * a + 10 * b + c) mod 10 = c"
proof -
  have e: "100 * a + 10 * b + c = 10 * (10 * a + b) + c" by simp
  have d10: "(100 * a + 10 * b + c) div 10 = 10 * a + b"
    unfolding e using assms(2) by (rule two_digits(1))
  show "(100 * a + 10 * b + c) div 10 mod 10 = b"
    unfolding d10 using assms(1) by (rule two_digits(2))
  show "(100 * a + 10 * b + c) mod 10 = c"
    unfolding e using assms(2) by (rule two_digits(2))
  have "(100 * a + 10 * b + c) div 100 = (100 * a + 10 * b + c) div 10 div 10"
    by (simp add: div_mult2_eq [symmetric])
  also have "\<dots> = a" unfolding d10 using assms(1) by (rule two_digits(1))
  finally show "(100 * a + 10 * b + c) div 100 = a" .
qed

text \<open>A time of \<open>H\<close> hours, \<open>M\<close> minutes, \<open>S\<close> seconds and \<open>F\<close> milliseconds, counted in milliseconds.\<close>

lemma ms_split:
  fixes H M S F :: nat
  assumes "M < 60" "S < 60" "F < 1000"
  defines "T \<equiv> 1000 * (H * 3600 + M * 60 + S) + F"
  shows "T div 3600000 = H" and "T mod 3600000 div 60000 = M"
    and "T mod 60000 div 1000 = S" and "T mod 60000 mod 1000 = F"
proof -
  have T1: "T = H * 3600000 + (M * 60000 + (S * 1000 + F))"
    by (simp add: T_def)
  have T2: "T = (H * 60 + M) * 60000 + (S * 1000 + F)"
    by (simp add: T_def)
  have lt2: "S * 1000 + F < 60000" using assms(2,3) by linarith
  have lt1: "M * 60000 + (S * 1000 + F) < 3600000" using assms(1) lt2 by linarith
  have "T mod 3600000 = (M * 60000 + (S * 1000 + F)) mod 3600000"
    unfolding T1 by (rule mod_mult_self3)
  then have m1: "T mod 3600000 = M * 60000 + (S * 1000 + F)"
    using lt1 by (simp only: mod_less)
  have "T mod 60000 = (S * 1000 + F) mod 60000"
    unfolding T2 by (rule mod_mult_self3)
  then have m2: "T mod 60000 = S * 1000 + F"
    using lt2 by (simp only: mod_less)
  have "T div 3600000 = H + (M * 60000 + (S * 1000 + F)) div 3600000"
    unfolding T1 by (rule div_mult_self3) simp
  then show "T div 3600000 = H" using lt1 by (simp only: div_less add_0_right)
  have "(M * 60000 + (S * 1000 + F)) div 60000 = M + (S * 1000 + F) div 60000"
    by (rule div_mult_self3) simp
  then show "T mod 3600000 div 60000 = M"
    unfolding m1 using lt2 by (simp only: div_less add_0_right)
  have "(S * 1000 + F) div 1000 = S + F div 1000"
    by (rule div_mult_self3) simp
  then show "T mod 60000 div 1000 = S"
    unfolding m2 using assms(3) by (simp only: div_less add_0_right)
  have "(S * 1000 + F) mod 1000 = F mod 1000"
    by (rule mod_mult_self3)
  then show "T mod 60000 mod 1000 = F"
    unfolding m2 using assms(3) by (simp only: mod_less)
qed

lemma js_rem_ms:
  assumes k: "0 < k"
  shows "js_rem (of_nat T / 1000) (of_nat k) = of_nat (T mod (1000 * k)) / 1000"
proof -
  have q: "(of_nat T / 1000 :: rat) / of_nat k = of_nat T / of_nat (1000 * k)"
    by simp
  have fl: "\<lfloor>(of_nat T :: rat) / of_nat (1000 * k)\<rfloor> = int (T div (1000 * k))"
    by (rule floor_divide_of_nat_eq)
  have nn: "\<not> (of_nat T / 1000 :: rat) / of_nat k < 0"
    by (simp add: not_less)
  have "(of_nat T :: rat) = of_nat (1000 * k * (T div (1000 * k)) + T mod (1000 * k))"
    by simp
  then have "(of_nat T :: rat) =
      1000 * of_nat k * of_nat (T div (1000 * k)) + of_nat (T mod (1000 * k))"
    by (simp only: of_nat_add of_nat_mult of_nat_numeral)
  then show ?thesis
    unfolding js_rem_def js_trunc_def using nn fl q k
    by (simp add: field_simps)
qed

lemma parse_wf:
  assumes "is_digit h1" "is_digit h2" "is_digit m1" "is_digit m2" "is_digit s1" "is_digit s2"
    "is_digit f1" "is_digit f2" "is_digit f3"
  shows "parseVTTTimestamp [h1, h2, CHR '':'', m1, m2, CHR '':'', s1, s2, CHR ''.'', f1, f2, f3] =
    Some (of_nat (1000 * ((10 * digit_val h1 + digit_val h2) * 3600 +
                          (10 * digit_val m1 + digit_val m2) * 60 +
                          (10 * digit_val s1 + digit_val s2)) +
                  (100 * digit_val f1 + 10 * digit_val f2 + digit_val f3)) / 1000)"
proof -
  have sp: "split_on CHR '':'' [h1, h2, CHR '':'', m1, m2, CHR '':'', s1, s2, CHR ''.'', f1, f2, f3] =
    [[h1, h2], [m1, m2], [s1, s2, CHR ''.'', f1, f2, f3]]"
    using assms by (simp add: is_digit_not_colon)
  show ?thesis
    unfolding parseVTTTimestamp_def sp using assms
    by (simp add: Number_2 Number_2_3 field_simps)
qed

lemma toFixed3_ms: "toFixed3 (of_nat m / 1000) = fixed3_digits m"
proof -
  have e: "(of_nat m / 1000 :: rat) * 1000 + 1 / 2 = of_nat m + 1 / 2"
    by simp
  have "\<lfloor>(of_nat m :: rat) + 1 / 2\<rfloor> = int m"
    by (rule floor_unique) simp_all
  then have n: "nat \<lfloor>(of_nat m / 1000 :: rat) * 1000 + 1 / 2\<rfloor> = m"
    by (simp only: e nat_int)
  have nneg: "\<not> (of_nat m / 1000 :: rat) < 0"
    by (simp add: not_less)
  show ?thesis
    unfolding toFixed3_def by (simp only: nneg if_False n)
qed

lemma format_ms:
  assumes "H < 100" "M < 60" "S < 60" "F < 1000"
  shows "formatVTTTimestamp (Some (of_nat (1000 * (H * 3600 + M * 60 + S) + F) / 1000)) =
    [digit_char (H div 10), digit_char (H mod 10), CHR '':'',
     digit_char (M div 10), digit_char (M mod 10), CHR '':'',
     digit_char (S div 10), digit_char (S mod 10), CHR ''.'',
     digit_char (F div 100), digit_char (F div 10 mod 10), digit_char (F mod 10)]"
proof -
  define T where "T = 1000 * (H * 3600 + M * 60 + S) + F"
  have r1: "js_rem (of_nat T / 1000) 3600 = of_nat (T mod 3600000) / 1000"
    using js_rem_ms [of 3600 T] by simp
  have r2: "js_rem (of_nat T / 1000) 60 = of_nat (T mod 60000) / 1000"
    using js_rem_ms [of 60 T] by simp
  have hh: "\<lfloor>(of_nat T / 1000 :: rat) / 3600\<rfloor> = int (T div 3600000)"
    using floor_divide_of_nat_eq [of T 3600000, where ?'a = rat] by simp
  have mm: "\<lfloor>(of_nat (T mod 3600000) / 1000 :: rat) / 60\<rfloor> = int (T mod 3600000 div 60000)"
    using floor_divide_of_nat_eq [of "T mod 3600000" 60000, where ?'a = rat] by simp
  have tH: "T div 3600000 = H" and tM: "T mod 3600000 div 60000 = M"
    and tS: "T mod 60000 div 1000 = S" and tF: "T mod 60000 mod 1000 = F"
    unfolding T_def using assms(2-4) by (rule ms_split)+
  have "formatVTTTimestamp (Some (of_nat T / 1000)) =
    padStart 2 CHR ''0'' (nat_toString H) @ CHR '':'' #
    padStart 2 CHR ''0'' (nat_toString M) @ CHR '':'' #
    padStart 6 CHR ''0'' (nat_toString S @ CHR ''.'' # padStart 3 CHR ''0'' (nat_toString F))"
    unfolding formatVTTTimestamp.simps timestampTemplate_def r1 r2 hh mm toFixed3_ms
      fixed3_digits_def tH tM tS tF
    by (simp add: int_toString_def)
  moreover have "padStart 6 CHR ''0'' (nat_toString S @ CHR ''.'' # padStart 3 CHR ''0'' (nat_toString F))
    = padStart 2 CHR ''0'' (nat_toString S) @ CHR ''.'' # padStart 3 CHR ''0'' (nat_toString F)"
    using assms by (simp add: padStart3_nat) (simp add: padStart_def)
  ultimately show ?thesis
    using assms unfolding T_def by (simp add: padStart2_nat padStart3_nat)
qed

text \<open>
  C10. For every well-formed timestamp string \<^verbatim>\<open>HH:MM:SS.mmm\<close> (two-digit hours, minutes and
  seconds below 60, three millisecond digits), formatting the parsed value gives the string
  back.
\<close>

theorem timestamp_round_trip:
  "wellFormedTimestamp s \<Longrightarrow> formatVTTTimestamp (parseVTTTimestamp s) = s"
proof -
  assume wf: "wellFormedTimestamp s"
  then obtain h1 h2 m1 m2 s1 s2 f1 f2 f3 where
    s: "s = [h1, h2, CHR '':'', m1, m2, CHR '':'', s1, s2, CHR ''.'', f1, f2, f3]"
    and d: "is_digit h1" "is_digit h2" "is_digit m1" "is_digit m2" "is_digit s1" "is_digit s2"
      "is_digit f1" "is_digit f2" "is_digit f3"
    and r: "dec_val [m1, m2] < 60" "dec_val [s1, s2] < 60"
    by (auto elim!: wellFormedTimestamp.elims(2))
  let ?H = "10 * digit_val h1 + digit_val h2"
  let ?M = "10 * digit_val m1 + digit_val m2"
  let ?S = "10 * digit_val s1 + digit_val s2"
  let ?F = "100 * digit_val f1 + 10 * digit_val f2 + digit_val f3"
  have b: "?H < 100" "?M < 60" "?S < 60" "?F < 1000"
    using d r digit_val_less [of h1] digit_val_less [of h2] digit_val_less [of f1]
      digit_val_less [of f2] digit_val_less [of f3]
    by (simp_all add: dec_val_def)
  have dv: "?H div 10 = digit_val h1" "?H mod 10 = digit_val h2"
    "?M div 10 = digit_val m1" "?M mod 10 = digit_val m2"
    "?S div 10 = digit_val s1" "?S mod 10 = digit_val s2"
    "?F div 100 = digit_val f1" "?F div 10 mod 10 = digit_val f2" "?F mod 10 = digit_val f3"
    using d by (simp_all only: two_digits three_digits digit_val_less)
  show ?thesis
    unfolding s parse_wf [OF d] format_ms [OF b] dv
    using d by (simp add: digit_char_digit_val)
qed

theorem timestamp_round_trip_witness:
  "wellFormedTimestamp ''01:02:03.456'' \<and>
   formatVTTTimestamp (parseVTTTimestamp ''01:02:03.456'') = ''01:02:03.456''"
proof -
  have h: "wellFormedTimestamp ''01:02:03.456''"
    by (simp add: is_digit_def dec_val_def digit_val_def)
  show ?thesis using h timestamp_round_trip [OF h] by simp
qed

section \<open>The running offset\<close>

lemma combineVTTLoop_offset:
  "snd (combineVTTLoop i ts (combined, timeOffset)) = timeOffset + 580 * of_nat (length ts)"
proof (induction ts arbitrary: i combined timeOffset)
  case Nil
  show ?case by simp
next
  case (Cons t ts)
  show ?case
    by (simp add: Cons.IH Let_def SEGMENT_DURATION_def SEGMENT_OVERLAP_def algebra_simps)
qed

text \<open>
  C2, as the code has it. The cue-track stitcher advances its offset by the nominal stride
  of 580 seconds (segment length minus overlap) for every segment, whatever the segment
  holds. In the structured stitcher the offset after the first segment, when it does not
  fail, is the end time of the last segment entry of that segment, its measured span.
\<close>

theorem running_offset:
  "snd (combineVTTLoop i ts (combined, timeOffset)) =
     timeOffset + (SEGMENT_DURATION / 1000 - SEGMENT_OVERLAP / 1000) * of_nat (length ts) \<and>
   (combineJSONLoop [d] (combined0, 0) = Inr (combined', timeOffset') \<longrightarrow>
     tr_segments d \<noteq> [] \<and> timeOffset' = seg_end (last (tr_segments d)))"
  using combineVTTLoop_offset [of i ts combined timeOffset]
  by (auto simp: SEGMENT_DURATION_def SEGMENT_OVERLAP_def Let_def split: if_splits)

theorem running_offset_witness:
  "combineJSONLoop [clipA] (\<lparr>tr_text = [], tr_words = [], tr_segments = []\<rparr>, 0) =
     Inr (\<lparr>tr_text = ''Hello world. '',
           tr_words = [\<lparr>word = ''Hello'', word_start = 0, word_end = 590\<rparr>,
                       \<lparr>word = ''world.'', word_start = 590, word_end = 600\<rparr>],
           tr_segments = [\<lparr>seg_id = 0, seg_start = 0, seg_end = 590, seg_text = ''Hello''\<rparr>,
                          \<lparr>seg_id = 1, seg_start = 590, seg_end = 600, seg_text = ''world.''\<rparr>]\<rparr>, 600) \<and>
   snd (combineVTTLoop 0 [shortTrack, shortTrack] ([], 0)) = 1160 \<and>
   seg_end (last (tr_segments clipA)) = 600"
proof -
  have h: "combineJSONLoop [clipA] (\<lparr>tr_text = [], tr_words = [], tr_segments = []\<rparr>, 0) =
     Inr (\<lparr>tr_text = ''Hello world. '',
           tr_words = [\<lparr>word = ''Hello'', word_start = 0, word_end = 590\<rparr>,
                       \<lparr>word = ''world.'', word_start = 590, word_end = 600\<rparr>],
           tr_segments = [\<lparr>seg_id = 0, seg_start = 0, seg_end = 590, seg_text = ''Hello''\<rparr>,
                          \<lparr>seg_id = 1, seg_start = 590, seg_end = 600, seg_text = ''world.''\<rparr>]\<rparr>, 600)"
    by (simp add: clipA_def Let_def)
  have v: "snd (combineVTTLoop 0 [shortTrack, shortTrack] ([], 0)) = 1160"
    using running_offset [of 0 "[shortTrack, shortTrack]" "[]" 0]
    by (simp add: SEGMENT_DURATION_def SEGMENT_OVERLAP_def)
  have j: "seg_end (last (tr_segments clipA)) = 600"
    using running_offset [of 0 "[]" "[]" 0 clipA "\<lparr>tr_text = [], tr_words = [], tr_segments = []\<rparr>", THEN conjunct2, rule_format, OF h]
    by simp
  from h v j show ?thesis by (intro conjI)
qed

text \<open>
  C2 as stated fails for both shapes. Cue track: after a first segment whose only cue ends
  at 5 seconds the offset is 580, not 5. Structured: the second of two responses spans 600
  seconds of its clip, as the first does, and the offset after it is 600 again, not 1200; it
  has not advanced by the span of the second segment.
\<close>

theorem running_offset_counterexample:
  "map cue_end (segmentCues 0 0 shortTrack) = [Some 5] \<and>
   snd (combineVTTLoop 0 [shortTrack] ([], 0)) = 580 \<and>
   seg_end (last (tr_segments part1)) = 600 \<and>
   seg_end (last (tr_segments part2)) = 600 \<and>
   snd (projr (combineJSONLoop [part1] (\<lparr>tr_text = [], tr_words = [], tr_segments = []\<rparr>, 0))) = 600 \<and>
   snd (projr (combineJSONLoop [part1, part2] (\<lparr>tr_text = [], tr_words = [], tr_segments = []\<rparr>, 0))) = 600"
  unfolding shortTrack_def part1_def part2_def by code_simp

section \<open>The text of a structured transcript\<close>

lemma combineJSONLoop_text:
  "combineJSONLoop ds (combined, timeOffset) = Inr (combined', timeOffset') \<Longrightarrow>
   tr_text combined' = tr_text combined @ concat (map (\<lambda>d. tr_text d @ '' '') ds)"
proof (induction ds arbitrary: combined timeOffset)
  case Nil
  then show ?case by simp
next
  case (Cons d ds)
  from Cons.prems have ne: "tr_segments d \<noteq> []"
    by (auto simp: Let_def split: if_splits)
  with Cons.prems Cons.IH show ?case
    by (auto simp: Let_def)
qed

text \<open>
  C6, as the code has it. The text of the stitched structured transcript is the concatenation
  of the text fields of the per-clip responses, each followed by one space; the segment
  entries play no part in it.
\<close>

theorem fullText_concatenates_clip_texts:
  "combineJSONTranscriptions ds = Inr out \<Longrightarrow>
   tr_text out = concat (map (\<lambda>d. tr_text d @ '' '') ds)"
proof -
  assume a: "combineJSONTranscriptions ds = Inr out"
  then obtain timeOffset where
    "combineJSONLoop ds (\<lparr>tr_text = [], tr_words = [], tr_segments = []\<rparr>, 0) = Inr (out, timeOffset)"
    by (auto simp: combineJSONTranscriptions_def split: sum.splits)
  from combineJSONLoop_text [OF this] show ?thesis by simp
qed

theorem fullText_concatenates_clip_texts_witness:
  "combineJSONTranscriptions [clipA, clipB] =
     Inr (projr (combineJSONTranscriptions [clipA, clipB])) \<and>
   tr_text (projr (combineJSONTranscriptions [clipA, clipB])) = ''Hello world. world. Bye. ''"
proof -
  have h: "combineJSONTranscriptions [clipA, clipB] =
     Inr (projr (combineJSONTranscriptions [clipA, clipB]))"
    by (simp add: combineJSONTranscriptions_def clipA_def clipB_def Let_def)
  show ?thesis
    using h fullText_concatenates_clip_texts [OF h]
    by (simp add: clipA_def clipB_def)
qed

text \<open>
  C6 as stated fails: for two overlapping clips the stitched text is the two clip texts one
  after the other, with the overlap text twice and a space at the end, and differs from the
  segment entries' texts joined by single spaces.
\<close>

theorem fullText_counterexample:
  "tr_text (projr (combineJSONTranscriptions [clipA, clipB])) = ''Hello world. world. Bye. '' \<and>
   join '' '' (map seg_text (tr_segments (projr (combineJSONTranscriptions [clipA, clipB])))) =
     ''Hello world. world. Bye.'' \<and>
   tr_text (projr (combineJSONTranscriptions [clipA, clipB])) \<noteq>
     join '' '' (map seg_text (tr_segments (projr (combineJSONTranscriptions [clipA, clipB]))))"
  unfolding clipA_def clipB_def by code_simp

section \<open>Items in the overlap region\<close>

text \<open>
  In the cue-track stitcher a cue block of a later segment is dropped exactly when its
  shifted start lies before the offset plus the overlap; a kept block carries the shifted
  times.
\<close>

lemma adjustCue_later_segment:
  assumes "0 < i" "timestampMatch currentCue = Some (t1, t2)" "parseVTTTimestamp t1 = Some a"
  shows "adjustCue i timeOffset currentCue = None
      \<longleftrightarrow> a + timeOffset < timeOffset + SEGMENT_OVERLAP / 1000"
    and "adjustCue i timeOffset currentCue = Some c \<Longrightarrow>
      cue_start c = Some (a + timeOffset) \<and>
      cue_end c = js_add (parseVTTTimestamp t2) timeOffset"
  using assms by (auto simp: adjustCue_def js_add_def js_ge_def Let_def split: if_splits)

lemma adjustCue_first_segment:
  assumes "timestampMatch currentCue = Some (t1, t2)"
  shows "\<exists>c. adjustCue 0 timeOffset currentCue = Some c \<and>
    cue_start c = js_add (parseVTTTimestamp t1) timeOffset"
  using assms by (simp add: adjustCue_def Let_def)

text \<open>
  C1 on the structured shape. The second clip starts 10 seconds into its own time; the offset
  after the first clip is 600, so its first word and its first segment entry start at 610,
  before 600 + 20. Both are in the stitched transcript: the structured stitcher drops
  nothing.
\<close>

theorem structured_stitch_keeps_overlap_items:
  "snd (projr (combineJSONLoop [clipA] (\<lparr>tr_text = [], tr_words = [], tr_segments = []\<rparr>, 0))) = 600 \<and>
   map (\<lambda>w. (word w, word_start w)) (tr_words (projr (combineJSONTranscriptions [clipA, clipB]))) =
     [(''Hello'', 0), (''world.'', 590), (''world.'', 610), (''Bye.'', 620)] \<and>
   map (\<lambda>s. (seg_text s, seg_start s)) (tr_segments (projr (combineJSONTranscriptions [clipA, clipB]))) =
     [(''Hello'', 0), (''world.'', 590), (''world.'', 610), (''Bye.'', 620)]"
  unfolding clipA_def clipB_def by code_simp

section \<open>Order of the stitched items\<close>

lemma cueLoop_blocks:
  "cueLoop i timeOffset currentCue lines =
     List.map_filter (adjustCue i timeOffset) (cueBlocks currentCue lines)"
  by (induction lines arbitrary: currentCue)
     (auto simp: List.map_filter_simps split: option.splits)

lemma match_here_stamps:
  "match_here s = Some (t1, t2) \<Longrightarrow> is_stamp t1 \<and> is_stamp t2"
  by (auto simp: match_here_def split: if_splits)

lemma timestampMatch_stamps:
  "timestampMatch s = Some (t1, t2) \<Longrightarrow> is_stamp t1 \<and> is_stamp t2"
  by (induction s) (auto split: option.splits dest: match_here_stamps)

lemma is_stamp_parses: "is_stamp t \<Longrightarrow> \<exists>a. parseVTTTimestamp t = Some a"
proof -
  assume "is_stamp t"
  then obtain h1 h2 m1 m2 s1 s2 f1 f2 f3 where
    "t = [h1, h2, CHR '':'', m1, m2, CHR '':'', s1, s2, CHR ''.'', f1, f2, f3]"
    "is_digit h1" "is_digit h2" "is_digit m1" "is_digit m2" "is_digit s1" "is_digit s2"
    "is_digit f1" "is_digit f2" "is_digit f3"
    by (auto elim!: is_stamp.elims(2))
  then show ?thesis using parse_wf [of h1 h2 m1 m2 s1 s2 f1 f2 f3] by blast
qed

lemma adjustCue_without_times:
  "blockTimes block = None \<Longrightarrow> adjustCue i timeOffset block = None"
proof (cases "timestampMatch block")
  case None
  then show ?thesis by (simp add: adjustCue_def)
next
  case (Some m)
  assume bt: "blockTimes block = None"
  obtain t1 t2 where m: "m = (t1, t2)" by (cases m)
  from Some m timestampMatch_stamps have "is_stamp t1" "is_stamp t2" by blast+
  then obtain a b where "parseVTTTimestamp t1 = Some a" "parseVTTTimestamp t2 = Some b"
    using is_stamp_parses by blast
  with Some m bt show ?thesis by (simp add: blockTimes_def)
qed

lemma adjustCue_with_times:
  assumes "blockTimes block = Some (a, b)"
  shows "\<not> (i = 0 \<or> 20 \<le> a) \<Longrightarrow> adjustCue i timeOffset block = None"
    and "i = 0 \<or> 20 \<le> a \<Longrightarrow>
      \<exists>c. adjustCue i timeOffset block = Some c \<and>
          cue_start c = Some (a + timeOffset) \<and> cue_end c = Some (b + timeOffset)"
  using assms
  by (auto simp: adjustCue_def blockTimes_def js_add_def js_ge_def SEGMENT_OVERLAP_def Let_def
           split: option.splits)

lemma segmentCues_times:
  "map (\<lambda>c. (cue_start c, cue_end c)) (segmentCues i timeOffset t) =
     map (\<lambda>(a, b). (Some (a + timeOffset), Some (b + timeOffset)))
       (filter (\<lambda>(a, b). i = 0 \<or> 20 \<le> a) (clipCues i t))"
proof -
  have "map (\<lambda>c. (cue_start c, cue_end c)) (List.map_filter (adjustCue i timeOffset) blocks) =
     map (\<lambda>(a, b). (Some (a + timeOffset), Some (b + timeOffset)))
       (filter (\<lambda>(a, b). i = 0 \<or> 20 \<le> a) (List.map_filter blockTimes blocks))" for blocks
  proof (induction blocks)
    case Nil
    show ?case by (simp add: List.map_filter_simps)
  next
    case (Cons block blocks)
    show ?case
    proof (cases "blockTimes block")
      case None
      with adjustCue_without_times [OF None, of i timeOffset] Cons.IH show ?thesis
        by (simp add: List.map_filter_simps)
    next
      case (Some ab)
      obtain a b where ab: "ab = (a, b)" by (cases ab)
      show ?thesis
      proof (cases "i = 0 \<or> 20 \<le> a")
        case True
        from adjustCue_with_times(2) [OF Some [unfolded ab] True, of timeOffset]
        obtain c where "adjustCue i timeOffset block = Some c"
          "cue_start c = Some (a + timeOffset)" "cue_end c = Some (b + timeOffset)" by blast
        with Some ab True Cons.IH show ?thesis
          by (simp add: List.map_filter_simps)
      next
        case False
        from adjustCue_with_times(1) [OF Some [unfolded ab] False, of timeOffset]
        have "adjustCue i timeOffset block = None" .
        with Some ab False Cons.IH show ?thesis
          by (simp add: List.map_filter_simps)
      qed
    qed
  qed
  then show ?thesis
    by (simp add: segmentCues_def clipCues_def cueLoop_blocks)
qed

lemma inOrder_weaken: "inOrder lo hi cs \<Longrightarrow> lo' \<le> lo \<Longrightarrow> inOrder lo' hi cs"
  by (cases cs) auto

lemma inOrder_bounds: "inOrder lo hi cs \<Longrightarrow> lo \<le> hi"
  by (induction cs arbitrary: lo) force+

lemma inOrder_filter:
  "inOrder lo hi cs \<Longrightarrow> m \<le> hi \<Longrightarrow> inOrder (max lo m) hi (filter (\<lambda>(a, b). m \<le> a) cs)"
proof (induction cs arbitrary: lo)
  case Nil
  then show ?case by simp
next
  case (Cons c cs)
  obtain s e where c: "c = (s, e)" by (cases c)
  from Cons.prems c have lo: "lo \<le> s" and se: "s < e" and rest: "inOrder e hi cs" by simp_all
  from Cons.IH [OF rest Cons.prems(2)] have ih: "inOrder (max e m) hi (filter (\<lambda>(a, b). m \<le> a) cs)" .
  show ?case
  proof (cases "m \<le> s")
    case True
    with se have "max e m = e" by simp
    with ih True lo se c show ?thesis by simp
  next
    case False
    from lo se have "max lo m \<le> max e m" by simp
    from inOrder_weaken [OF ih this] False c show ?thesis by simp
  qed
qed

lemma inOrder_shift:
  "inOrder lo hi cs \<Longrightarrow> inOrder (lo + d) (hi + d) (map (\<lambda>(a, b). (a + d, b + d)) cs)"
  by (induction cs arbitrary: lo) auto

lemma inOrder_append:
  "inOrder lo mid xs \<Longrightarrow> inOrder mid hi ys \<Longrightarrow> inOrder lo hi (xs @ ys)"
proof (induction xs arbitrary: lo)
  case Nil
  then show ?case by (simp add: inOrder_weaken)
next
  case (Cons x xs)
  then show ?case by (cases x) simp
qed

text \<open>
  The cues that segment \<open>i\<close> contributes, when the cues of its clip are in order within the
  600 seconds of the clip: they are in order between the offset (plus the overlap, for a
  later segment) and the offset plus 600.
\<close>

lemma segment_in_order:
  assumes "inOrder 0 600 (clipCues i t)"
  shows "\<exists>L. map (\<lambda>c. (cue_start c, cue_end c)) (segmentCues i timeOffset t) =
          map (\<lambda>(a, b). (Some a, Some b)) L \<and>
        inOrder (if i = 0 then timeOffset else timeOffset + 20) (timeOffset + 600) L"
proof -
  let ?kept = "filter (\<lambda>(a, b). i = 0 \<or> 20 \<le> a) (clipCues i t)"
  let ?L = "map (\<lambda>(a, b). (a + timeOffset, b + timeOffset)) ?kept"
  have k: "inOrder (if i = 0 then 0 else 20) 600 ?kept"
  proof (cases "i = 0")
    case True
    with assms show ?thesis by simp
  next
    case False
    from inOrder_filter [OF assms, of 20] False show ?thesis by simp
  qed
  have "inOrder ((if i = 0 then 0 else 20) + timeOffset) (600 + timeOffset) ?L"
    using k by (rule inOrder_shift)
  then have o: "inOrder (if i = 0 then timeOffset else timeOffset + 20) (timeOffset + 600) ?L"
    by (simp add: algebra_simps split: if_splits)
  have "map (\<lambda>c. (cue_start c, cue_end c)) (segmentCues i timeOffset t) =
      map (\<lambda>(a, b). (Some a, Some b)) ?L"
    unfolding segmentCues_times by (simp add: case_prod_unfold comp_def)
  with o show ?thesis by blast
qed

lemma stitched_in_order:
  assumes "\<And>j. j < length ts \<Longrightarrow> inOrder 0 600 (clipCues (i + j) (ts ! j))"
  shows "\<exists>L. map (\<lambda>c. (cue_start c, cue_end c)) (stitchedCues i (580 * of_nat i) ts) =
          map (\<lambda>(a, b). (Some a, Some b)) L \<and>
        inOrder (if i = 0 then 0 else 580 * of_nat i + 20) (580 * of_nat (i + length ts) + 20) L"
  using assms
proof (induction ts arbitrary: i)
  case Nil
  show ?case by (rule exI [of _ "[]"]) simp
next
  case (Cons t ts)
  have "inOrder 0 600 (clipCues i t)"
    using Cons.prems [of 0] by simp
  from segment_in_order [OF this, of "580 * of_nat i"] obtain L1 where
    m1: "map (\<lambda>c. (cue_start c, cue_end c)) (segmentCues i (580 * of_nat i) t) =
          map (\<lambda>(a, b). (Some a, Some b)) L1"
    and o1: "inOrder (if i = 0 then 580 * of_nat i else 580 * of_nat i + 20) (580 * of_nat i + 600) L1"
    by blast
  have "\<And>j. j < length ts \<Longrightarrow> inOrder 0 600 (clipCues (Suc i + j) (ts ! j))"
    using Cons.prems [of "Suc j" for j] by simp
  from Cons.IH [OF this] obtain L2 where
    m2: "map (\<lambda>c. (cue_start c, cue_end c)) (stitchedCues (Suc i) (580 * of_nat (Suc i)) ts) =
          map (\<lambda>(a, b). (Some a, Some b)) L2"
    and o2: "inOrder (580 * of_nat (Suc i) + 20) (580 * of_nat (Suc i + length ts) + 20) L2"
    by auto
  have off: "580 * of_nat i + (SEGMENT_DURATION / 1000 - SEGMENT_OVERLAP / 1000) = (580 * of_nat (Suc i) :: rat)"
    by (simp add: SEGMENT_DURATION_def SEGMENT_OVERLAP_def algebra_simps)
  have mid: "(580 * of_nat (Suc i) + 20 :: rat) = 580 * of_nat i + 600"
    by (simp add: algebra_simps)
  have "inOrder (if i = 0 then 0 else 580 * of_nat i + 20) (580 * of_nat (i + length (t # ts)) + 20) (L1 @ L2)"
    using inOrder_append [OF _ o2 [unfolded mid], of _ L1] o1
    by (simp add: mid split: if_splits)
  moreover have "stitchedCues i (580 * of_nat i) (t # ts) =
      segmentCues i (580 * of_nat i) t @ stitchedCues (Suc i) (580 * of_nat (Suc i)) ts"
    by (simp only: stitchedCues.simps off)
  then have "map (\<lambda>c. (cue_start c, cue_end c)) (stitchedCues i (580 * of_nat i) (t # ts)) =
      map (\<lambda>(a, b). (Some a, Some b)) (L1 @ L2)"
    by (simp only: map_append m1 m2)
  ultimately show ?case by blast
qed

text \<open>
  The cue-track shape keeps the order of C4 whenever the service returns, for every clip,
  cues that are in order within the clip: the stitched cues then start at or after the end
  of their predecessor and each ends after its start.
\<close>

lemma cue_track_in_order:
  assumes "\<And>j. j < length ts \<Longrightarrow> inOrder 0 600 (clipCues j (ts ! j))"
  shows "\<exists>L. map (\<lambda>c. (cue_start c, cue_end c)) (stitchedCues 0 0 ts) =
          map (\<lambda>(a, b). (Some a, Some b)) L \<and>
        inOrder 0 (580 * of_nat (length ts) + 20) L"
  using stitched_in_order [of ts 0] assms by simp

lemma cue_track_in_order_example:
  "clipCues 0 replyTrack = [(30, 40)] \<and> clipCues 1 replyTrack = [(30, 40)] \<and>
   inOrder 0 600 (clipCues 0 replyTrack) \<and> inOrder 0 600 (clipCues 1 replyTrack) \<and>
   map (\<lambda>c. (cue_start c, cue_end c)) (stitchedCues 0 0 [replyTrack, replyTrack]) =
     [(Some 30, Some 40), (Some 610, Some 620)]"
  unfolding replyTrack_def by code_simp

text \<open>
  C4 on the structured shape. Three responses, each with its entries in order and starting
  30 seconds into the clip. The offset after the second response is the end of its last
  entry in its own time, 600, the same as after the first: the entries of the third
  response are placed on top of those of the second, and the stitched start times are
  not increasing.
\<close>

theorem structured_stitch_not_monotonic:
  "map (\<lambda>s. (seg_start s, seg_end s)) (tr_segments (projr (combineJSONTranscriptions [part1, part2, part3]))) =
     [(0, 600), (630, 900), (900, 1200), (630, 920)] \<and>
   map (\<lambda>w. (word_start w, word_end w)) (tr_words (projr (combineJSONTranscriptions [part1, part2, part3]))) =
     [(0, 600), (630, 900), (900, 1200), (630, 920)]"
  unfolding part1_def part2_def part3_def by code_simp

section \<open>Segment boundaries\<close>

lemma loop_continues_iff:
  "(600 * of_nat k :: rat) < duration \<longleftrightarrow> k < nat \<lceil>duration / 600\<rceil>"
proof -
  have "(600 * of_nat k :: rat) < duration \<longleftrightarrow> of_int (int k) < duration / 600"
    by (simp add: field_simps)
  also have "\<dots> \<longleftrightarrow> int k < \<lceil>duration / 600\<rceil>"
    by (rule less_ceiling_iff [symmetric])
  also have "\<dots> \<longleftrightarrow> k < nat \<lceil>duration / 600\<rceil>"
    by linarith
  finally show ?thesis .
qed

text \<open>
  The extraction commands of a split whose extractions all succeed: clip \<open>j\<close> starts at
  \<open>max 0 (600 j - 20)\<close> and always asks for 600 seconds; there is one clip for every
  started stretch of 600 seconds of the recording.
\<close>

lemma segmentLoop_runs:
  "\<forall>s d. \<exists>clip. ffmpeg e input s d = Inr clip \<Longrightarrow> currentTime = 600 * of_nat k \<Longrightarrow>
   ffmpeg_runs (fst (segmentLoop e input duration currentTime k segs w)) =
     ffmpeg_runs w @ map (\<lambda>j. (max 0 (600 * of_nat j - 20), 600, segmentPath e j))
       [k..<max k (nat \<lceil>duration / 600\<rceil>)]"
proof (induction e input duration currentTime k segs w rule: segmentLoop.induct)
  case (1 e input duration currentTime k segs w)
  show ?case
  proof (cases "currentTime < duration")
    case True
    then have kn: "k < nat \<lceil>duration / 600\<rceil>"
      using "1.prems"(2) loop_continues_iff [of k duration] by simp
    obtain clip where clip: "ffmpeg e input (max 0 (currentTime - SEGMENT_OVERLAP / 1000))
        (SEGMENT_DURATION / 1000) = Inr clip"
      using "1.prems"(1) by blast
    have nxt: "currentTime + SEGMENT_DURATION / 1000 = 600 * of_nat (Suc k)"
      using "1.prems"(2) by (simp add: SEGMENT_DURATION_def algebra_simps)
    have upt: "[k..<max k (nat \<lceil>duration / 600\<rceil>)] =
        k # [Suc k..<max (Suc k) (nat \<lceil>duration / 600\<rceil>)]"
      using kn by (simp add: max_def upt_conv_Cons)
    show ?thesis
      apply (subst segmentLoop.simps)
      using True clip "1.IH" [OF True clip "1.prems"(1) nxt] "1.prems"(2)
      apply (simp add: upt SEGMENT_DURATION_def SEGMENT_OVERLAP_def)
      done
  next
    case False
    then have "\<not> k < nat \<lceil>duration / 600\<rceil>"
      using "1.prems"(2) loop_continues_iff [of k duration] by simp
    then have "[k..<max k (nat \<lceil>duration / 600\<rceil>)] = []"
      by (simp add: max_def)
    with False show ?thesis
      by (subst segmentLoop.simps) simp
  qed
qed

text \<open>
  Hence, from the second clip on, every clip starts exactly where its predecessor ends:
  only the first two clips overlap.
\<close>

lemma splitAudioFile_runs:
  assumes "\<forall>s d. \<exists>clip. ffmpeg e b s d = Inr clip" and "ffprobe e b = Inr (Some duration)"
  shows "ffmpeg_runs (fst (splitAudioFile e b w)) =
     ffmpeg_runs w @ map (\<lambda>j. (max 0 (600 * of_nat j - 20), 600, segmentPath e j))
       [0..<nat \<lceil>duration / 600\<rceil>]"
proof -
  let ?loop = "segmentLoop e b duration 0 0 [] (w\<lparr>files := (files w)(inputPath e \<mapsto> b)\<rparr>)"
  have "ffmpeg_runs (fst (splitAudioFile e b w)) = ffmpeg_runs (fst ?loop)"
    by (cases ?loop) (auto simp: splitAudioFile_def assms(2) split: sum.splits)
  with segmentLoop_runs [OF assms(1), of 0 0 duration "[]" "w\<lparr>files := (files w)(inputPath e \<mapsto> b)\<rparr>"]
  show ?thesis by simp
qed

lemma later_clips_do_not_overlap:
  fixes j :: nat
  assumes "1 \<le> j"
  shows "max 0 (600 * of_nat (Suc j) - 20) = max 0 (600 * of_nat j - 20) + (600 :: rat)"
proof -
  have "(1 :: rat) \<le> of_nat j" using assms by simp
  then show ?thesis by (simp add: max_def algebra_simps)
qed

lemma runs_1500:
  "ffmpeg_runs (fst (splitAudioFile probe1500 [] emptyWorld)) =
    [(0, 600, ''/tmp/audio-segments/segment-0.mp3''),
     (580, 600, ''/tmp/audio-segments/segment-1.mp3''),
     (1180, 600, ''/tmp/audio-segments/segment-2.mp3'')]"
  unfolding probe1500_def emptyWorld_def by code_simp

text \<open>
  C3 at a recording of 1500 seconds. The extraction commands cover the intervals
  \<open>[0, 600)\<close>, \<open>[580, 1180)\<close> and \<open>[1180, 1780)\<close>: the second clip overlaps the first by 20
  seconds, the third does not overlap the second at all.
\<close>

theorem segments_of_1500_seconds:
  "map (\<lambda>(startTime, duration, path). (startTime, startTime + duration))
     (ffmpeg_runs (fst (splitAudioFile probe1500 [] emptyWorld))) =
   [(0, 600), (580, 1180), (1180, 1780)]"
  unfolding runs_1500 by simp

section \<open>The scenario of 1500 seconds\<close>

lemma combineVTTLoop_later:
  "0 < i \<Longrightarrow> fst (combineVTTLoop i ts (combined, timeOffset)) =
     combined @ renderCues (stitchedCues i timeOffset ts)"
proof (induction ts arbitrary: i combined timeOffset)
  case Nil
  show ?case by (simp add: renderCues_def)
next
  case (Cons t ts)
  from Cons.prems show ?case
    by (simp add: Cons.IH Let_def renderCues_def)
qed

text \<open>
  The output of the cue-track stitcher is the first line of the first transcription, a
  blank line, and the stitched cues, each followed by a blank line; the whole is trimmed.
\<close>

lemma combineVTTTranscriptions_cues:
  "combineVTTTranscriptions (t # ts) =
     trim (hd (split_on CHR 0x0A t) @ [CHR 0x0A, CHR 0x0A] @ renderCues (stitchedCues 0 0 (t # ts)))"
  by (simp add: combineVTTTranscriptions_def Let_def combineVTTLoop_later renderCues_def)

lemma tracks_stitched:
  "stitchedCues 0 0 [trackA, trackB, trackC] =
    [\<lparr>cue_start = Some 0, cue_end = Some 100,
      cue_block = ''00:00:00.000 --> 00:01:40.000\<newline>a0''\<rparr>,
     \<lparr>cue_start = Some 100, cue_end = Some 200,
      cue_block = ''00:01:40.000 --> 00:03:20.000\<newline>a1''\<rparr>,
     \<lparr>cue_start = Some 200, cue_end = Some 300,
      cue_block = ''00:03:20.000 --> 00:05:00.000\<newline>a2''\<rparr>,
     \<lparr>cue_start = Some 300, cue_end = Some 400,
      cue_block = ''00:05:00.000 --> 00:06:40.000\<newline>a3''\<rparr>,
     \<lparr>cue_start = Some 400, cue_end = Some 500,
      cue_block = ''00:06:40.000 --> 00:08:20.000\<newline>a4''\<rparr>,
     \<lparr>cue_start = Some 500, cue_end = Some 600,
      cue_block = ''00:08:20.000 --> 00:10:00.000\<newline>a5''\<rparr>,
     \<lparr>cue_start = Some 680, cue_end = Some 780,
      cue_block = ''00:11:20.000 --> 00:13:00.000\<newline>b1''\<rparr>,
     \<lparr>cue_start = Some 780, cue_end = Some 880,
      cue_block = ''00:13:00.000 --> 00:14:40.000\<newline>b2''\<rparr>,
     \<lparr>cue_start = Some 880, cue_end = Some 980,
      cue_block = ''00:14:40.000 --> 00:16:20.000\<newline>b3''\<rparr>,
     \<lparr>cue_start = Some 980, cue_end = Some 1080,
      cue_block = ''00:16:20.000 --> 00:18:00.000\<newline>b4''\<rparr>,
     \<lparr>cue_start = Some 1080, cue_end = Some 1180,
      cue_block = ''00:18:00.000 --> 00:19:40.000\<newline>b5''\<rparr>,
     \<lparr>cue_start = Some 1260, cue_end = Some 1360,
      cue_block = ''00:21:00.000 --> 00:22:40.000\<newline>c1''\<rparr>,
     \<lparr>cue_start = Some 1360, cue_end = Some 1460,
      cue_block = ''00:22:40.000 --> 00:24:20.000\<newline>c2''\<rparr>,
     \<lparr>cue_start = Some 1460, cue_end = Some 1480,
      cue_block = ''00:24:20.000 --> 00:24:40.000\<newline>c3''\<rparr>]"
  unfolding trackA_def trackB_def trackC_def by code_simp

text \<open>
  C5, as the code has it. For a recording of 1500 seconds three clips are extracted, the
  first two from 0 and from 580 seconds, each of 600 seconds. Stitching the cue tracks of
  a transcriber that returns one cue per 100 seconds of each clip gives 14 cues: the first
  cue of the second and of the third clip is dropped, the others are shifted by 580 and by
  1160 seconds, and every cue text occurs once.
\<close>

theorem scenario_1500:
  "length (ffmpeg_runs (fst (splitAudioFile probe1500 [] emptyWorld))) = 3 \<and>
   map (\<lambda>(startTime, duration, path). (startTime, duration))
     (take 2 (ffmpeg_runs (fst (splitAudioFile probe1500 [] emptyWorld)))) = [(0, 600), (580, 600)] \<and>
   length (stitchedCues 0 0 [trackA, trackB, trackC]) = 14 \<and>
   map cue_start (stitchedCues 0 0 [trackA, trackB, trackC]) =
     map Some [0, 100, 200, 300, 400, 500, 680, 780, 880, 980, 1080, 1260, 1360, 1460] \<and>
   combineVTTTranscriptions [trackA, trackB, trackC] =
     ''WEBVTT\<newline>\<newline>00:00:00.000 --> 00:01:40.000\<newline>a0\<newline>\<newline>00:01:40.000 --> 00:03:20.000\<newline>a1\<newline>\<newline>00:03:20.000 --> 00:05:00.000\<newline>a2\<newline>\<newline>00:05:00.000 --> 00:06:40.000\<newline>a3\<newline>\<newline>00:06:40.000 --> 00:08:20.000\<newline>a4\<newline>\<newline>00:08:20.000 --> 00:10:00.000\<newline>a5\<newline>\<newline>00:11:20.000 --> 00:13:00.000\<newline>b1\<newline>\<newline>00:13:00.000 --> 00:14:40.000\<newline>b2\<newline>\<newline>00:14:40.000 --> 00:16:20.000\<newline>b3\<newline>\<newline>00:16:20.000 --> 00:18:00.000\<newline>b4\<newline>\<newline>00:18:00.000 --> 00:19:40.000\<newline>b5\<newline>\<newline>00:21:00.000 --> 00:22:40.000\<newline>c1\<newline>\<newline>00:22:40.000 --> 00:24:20.000\<newline>c2\<newline>\<newline>00:24:20.000 --> 00:24:40.000\<newline>c3''"
  unfolding combineVTTTranscriptions_cues tracks_stitched runs_1500 trackA_def by code_simp

text \<open>
  C5 as stated fails: the extraction commands are not \<open>(0, 600)\<close>, \<open>(580, 600)\<close>,
  \<open>(1160, 340)\<close>, and the stitched track does not have 15 cues.
\<close>

theorem scenario_1500_counterexample:
  "map (\<lambda>(startTime, duration, path). (startTime, duration))
     (ffmpeg_runs (fst (splitAudioFile probe1500 [] emptyWorld))) \<noteq> [(0, 600), (580, 600), (1160, 340)] \<and>
   length (stitchedCues 0 0 [trackA, trackB, trackC]) \<noteq> 15"
  unfolding tracks_stitched runs_1500 by simp

section \<open>Files and requests of a run\<close>

lemma replace_first_percent_d:
  "\<exists>V. replace_first ''%d'' r (T @ ''%d.mp3'') = V @ ''d.mp3'' \<or>
       replace_first ''%d'' r (T @ ''%d.mp3'') = V @ r @ ''.mp3''"
proof (induction T)
  case Nil
  have "replace_first ''%d'' r ([] @ ''%d.mp3'') = [] @ r @ ''.mp3''" by simp
  then show ?case by blast
next
  case (Cons c cs)
  show ?case
  proof (cases "take 2 (c # cs @ ''%d.mp3'') = ''%d''")
    case True
    then obtain cs' where cs: "cs = CHR ''d'' # cs'"
      by (cases cs) auto
    have "replace_first ''%d'' r ((c # cs) @ ''%d.mp3'') = (r @ cs' @ ''%'') @ ''d.mp3''"
      using True cs by simp
    then show ?thesis by blast
  next
    case False
    from Cons.IH obtain V where
      "replace_first ''%d'' r (cs @ ''%d.mp3'') = V @ ''d.mp3'' \<or>
       replace_first ''%d'' r (cs @ ''%d.mp3'') = V @ r @ ''.mp3''" by blast
    then have "replace_first ''%d'' r ((c # cs) @ ''%d.mp3'') = (c # V) @ ''d.mp3'' \<or>
       replace_first ''%d'' r ((c # cs) @ ''%d.mp3'') = (c # V) @ r @ ''.mp3''"
      using False by auto
    then show ?thesis by blast
  qed
qed

lemma nat_toString_last: "\<exists>ds. nat_toString k = ds @ [digit_char (k mod 10)]"
  by (subst nat_toString.simps) auto

lemma digit_char_not_t: "digit_char (k mod 10) \<noteq> CHR ''t''"
proof
  assume "digit_char (k mod 10) = CHR ''t''"
  then have "(of_char (digit_char (k mod 10)) :: nat) = of_char CHR ''t''" by simp
  moreover have "k mod 10 < 10" by simp
  ultimately show False
    by (simp add: digit_char_def)
qed

lemma segmentPath_not_inputPath: "segmentPath e k \<noteq> inputPath e"
proof
  assume eq: "segmentPath e k = inputPath e"
  obtain ds where ds: "nat_toString k = ds @ [digit_char (k mod 10)]"
    using nat_toString_last by blast
  have out: "outputPath e = (tempDir e @ ''/segment-'') @ ''%d.mp3''"
    by (simp add: outputPath_def path_join_def)
  have inp: "inputPath e = (tempDir e @ ''/inpu'') @ ''t.mp3''"
    by (simp add: inputPath_def path_join_def)
  from replace_first_percent_d [of "nat_toString k" "tempDir e @ ''/segment-''"]
  obtain V where "segmentPath e k = V @ ''d.mp3'' \<or> segmentPath e k = V @ nat_toString k @ ''.mp3''"
    unfolding segmentPath_def out by blast
  then show False
  proof
    assume "segmentPath e k = V @ ''d.mp3''"
    with eq inp have "V @ ''d.mp3'' = (tempDir e @ ''/inpu'') @ ''t.mp3''" by simp
    then show False by simp
  next
    assume "segmentPath e k = V @ nat_toString k @ ''.mp3''"
    with eq inp ds have "(V @ ds) @ digit_char (k mod 10) # ''.mp3'' = (tempDir e @ ''/inpu'') @ ''t.mp3''"
      by simp
    then have "digit_char (k mod 10) = CHR ''t''" by simp
    with digit_char_not_t show False by blast
  qed
qed


lemma segmentLoop_requests:
  "segmentLoop e input d c k segs w = (w', r) \<Longrightarrow> requests w' = requests w"
proof (induction e input d c k segs w rule: segmentLoop.induct)
  case (1 e input duration currentTime segmentIndex segments w)
  from "1.prems" show ?case
    by (subst (asm) segmentLoop.simps)
       (auto split: if_splits sum.splits dest!: "1.IH")
qed

lemma segmentLoop_files_mono:
  "segmentLoop e input d c k segs w = (w', r) \<Longrightarrow> files w p \<noteq> None \<Longrightarrow> files w' p \<noteq> None"
proof (induction e input d c k segs w rule: segmentLoop.induct)
  case (1 e input duration currentTime segmentIndex segments w)
  from "1.prems" show ?case
    by (subst (asm) segmentLoop.simps)
       (auto split: if_splits sum.splits dest!: "1.IH")
qed

lemma segmentLoop_files_input:
  "segmentLoop e input d c k segs w = (w', r) \<Longrightarrow> files w' (inputPath e) = files w (inputPath e)"
proof (induction e input d c k segs w rule: segmentLoop.induct)
  case (1 e input duration currentTime segmentIndex segments w)
  from "1.prems" show ?case
    by (subst (asm) segmentLoop.simps)
       (auto split: if_splits sum.splits dest!: "1.IH"
          simp: segmentPath_not_inputPath segmentPath_not_inputPath [THEN not_sym])
qed

lemma segmentLoop_segments_exist:
  "segmentLoop e input d c k segs w = (w', Inr segs') \<Longrightarrow>
   \<forall>p\<in>set segs. files w p \<noteq> None \<Longrightarrow> \<forall>p\<in>set segs'. files w' p \<noteq> None"
proof (induction e input d c k segs w rule: segmentLoop.induct)
  case (1 e input duration currentTime segmentIndex segments w)
  from "1.prems" show ?case
    by (subst (asm) segmentLoop.simps)
       (auto split: if_splits sum.splits dest!: "1.IH")
qed

lemma segmentLoop_segments_paths:
  "segmentLoop e input d c k segs w = (w', Inr segs') \<Longrightarrow>
   \<forall>p\<in>set segs. p \<noteq> inputPath e \<Longrightarrow> \<forall>p\<in>set segs'. p \<noteq> inputPath e"
proof (induction e input d c k segs w rule: segmentLoop.induct)
  case (1 e input duration currentTime segmentIndex segments w)
  from "1.prems" show ?case
    by (subst (asm) segmentLoop.simps)
       (auto split: if_splits sum.splits dest!: "1.IH"
          simp: segmentPath_not_inputPath segmentPath_not_inputPath [THEN not_sym])
qed

lemma splitAudioFile_requests: "requests (fst (splitAudioFile e b w)) = requests w"
  by (auto simp: splitAudioFile_def split: sum.splits prod.splits dest: segmentLoop_requests)

lemma splitAudioFile_clips_exist:
  assumes "snd (splitAudioFile e b w) = Returned segments"
  shows "\<forall>p\<in>set segments. files (fst (splitAudioFile e b w)) p \<noteq> None"
    and "files (fst (splitAudioFile e b w)) (inputPath e) = None"
proof -
  from assms obtain metadata w' where
    pr: "ffprobe e b = Inr metadata" and
    lp: "segmentLoop e b (case metadata of None \<Rightarrow> 0 | Some d \<Rightarrow> d) 0 0 []
           (w\<lparr>files := (files w)(inputPath e \<mapsto> b)\<rparr>) = (w', Inr segments)"
    by (auto simp: splitAudioFile_def split: sum.splits prod.splits)
  have w1: "fst (splitAudioFile e b w) = w'\<lparr>files := (files w')(inputPath e := None)\<rparr>"
    using pr lp by (simp add: splitAudioFile_def)
  have ex: "\<forall>p\<in>set segments. files w' p \<noteq> None"
    using segmentLoop_segments_exist [OF lp] by simp
  have ne: "\<forall>p\<in>set segments. p \<noteq> inputPath e"
    using segmentLoop_segments_paths [OF lp] by simp
  show "\<forall>p\<in>set segments. files (fst (splitAudioFile e b w)) p \<noteq> None"
    unfolding w1 using ex ne by auto
  show "files (fst (splitAudioFile e b w)) (inputPath e) = None"
    unfolding w1 by simp
qed

lemma transcribeAudioSegment_world:
  "fst (transcribeAudioSegment e b k m l fmt p w) =
     w\<lparr>requests := requests w @ [makeRequest b k m l fmt p]\<rparr>"
  by (simp add: transcribeAudioSegment_def)

lemma transcribeAudioSegment_settles:
  "snd (transcribeAudioSegment e b k m l fmt p w) \<noteq> Unsettled"
  by (simp add: transcribeAudioSegment_def split: format.splits sum.splits)

lemma transcribeAudioSegment_answered:
  "snd (transcribeAudioSegment e b k m l fmt p w) = Returned t \<Longrightarrow>
   answered e fmt (length (requests w)) (makeRequest b k m l fmt p)"
  by (auto simp: transcribeAudioSegment_def answered_def split: format.splits sum.splits)

lemma transcribeLoop_step:
  "files w s = Some b \<Longrightarrow>
   transcribeLoop e k m l fmt p i (s # segs) prev ts w =
     (case snd (transcribeAudioSegment e b k m l fmt (segmentPrompt p i prev) w) of
        Returned t \<Rightarrow>
          transcribeLoop e k m l fmt p (Suc i) segs (Some t) (ts @ [t])
            (fst (transcribeAudioSegment e b k m l fmt (segmentPrompt p i prev) w))
      | Threw err \<Rightarrow> (fst (transcribeAudioSegment e b k m l fmt (segmentPrompt p i prev) w), Threw err)
      | Unsettled \<Rightarrow> (fst (transcribeAudioSegment e b k m l fmt (segmentPrompt p i prev) w), Unsettled))"
  by (simp split: prod.splits outcome.splits)

lemma transcribeLoop_files:
  "files (fst (transcribeLoop e k m l fmt p i segs prev ts w)) = files w"
proof (induction segs arbitrary: i prev ts w)
  case Nil
  show ?case by simp
next
  case (Cons s segs)
  show ?case
  proof (cases "files w s")
    case None
    then show ?thesis by simp
  next
    case (Some b)
    show ?thesis
      unfolding transcribeLoop_step [OF Some]
      by (simp add: Cons.IH transcribeAudioSegment_world split: outcome.splits)
  qed
qed

lemma transcribeLoop_settles:
  "snd (transcribeLoop e k m l fmt p i segs prev ts w) \<noteq> Unsettled"
proof (induction segs arbitrary: i prev ts w)
  case Nil
  show ?case by simp
next
  case (Cons s segs)
  show ?case
  proof (cases "files w s")
    case None
    then show ?thesis by simp
  next
    case (Some b)
    show ?thesis
      unfolding transcribeLoop_step [OF Some]
      by (simp add: Cons.IH transcribeAudioSegment_settles split: outcome.splits)
  qed
qed

lemma transcribeLoop_requests:
  "\<exists>rs. requests (fst (transcribeLoop e k m l fmt p i segs prev ts w)) = requests w @ rs"
proof (induction segs arbitrary: i prev ts w)
  case Nil
  show ?case by simp
next
  case (Cons s segs)
  show ?case
  proof (cases "files w s")
    case None
    then show ?thesis by simp
  next
    case (Some b)
    let ?seg = "transcribeAudioSegment e b k m l fmt (segmentPrompt p i prev) w"
    have w': "requests (fst ?seg) = requests w @ [makeRequest b k m l fmt (segmentPrompt p i prev)]"
      by (simp add: transcribeAudioSegment_world)
    show ?thesis
    proof (cases "snd ?seg")
      case (Returned t)
      from Cons.IH [of "Suc i" "Some t" "ts @ [t]" "fst ?seg"] show ?thesis
        unfolding transcribeLoop_step [OF Some] Returned w' by auto
    next
      case (Threw err)
      show ?thesis
        unfolding transcribeLoop_step [OF Some] Threw using w' by simp
    next
      case Unsettled
      with transcribeAudioSegment_settles show ?thesis by blast
    qed
  qed
qed

lemma transcribeLoop_answered:
  "snd (transcribeLoop e k m l fmt p i segs prev ts w) = Returned ts' \<Longrightarrow>
   length (requests w) \<le> n \<Longrightarrow>
   n < length (requests (fst (transcribeLoop e k m l fmt p i segs prev ts w))) \<Longrightarrow>
   answered e fmt n (requests (fst (transcribeLoop e k m l fmt p i segs prev ts w)) ! n)"
proof (induction segs arbitrary: i prev ts w)
  case Nil
  then show ?case by simp
next
  case (Cons s segs)
  show ?case
  proof (cases "files w s")
    case None
    with Cons.prems show ?thesis by simp
  next
    case (Some b)
    let ?req = "makeRequest b k m l fmt (segmentPrompt p i prev)"
    let ?seg = "transcribeAudioSegment e b k m l fmt (segmentPrompt p i prev) w"
    have w': "requests (fst ?seg) = requests w @ [?req]"
      by (simp add: transcribeAudioSegment_world)
    show ?thesis
    proof (cases "snd ?seg")
      case (Returned t)
      let ?rest = "transcribeLoop e k m l fmt p (Suc i) segs (Some t) (ts @ [t]) (fst ?seg)"
      have step: "transcribeLoop e k m l fmt p i (s # segs) prev ts w = ?rest"
        unfolding transcribeLoop_step [OF Some] Returned by simp
      obtain rs where rs: "requests (fst ?rest) = (requests w @ [?req]) @ rs"
        using transcribeLoop_requests [of e k m l fmt p "Suc i" segs "Some t" "ts @ [t]" "fst ?seg"]
        unfolding w' by auto
      show ?thesis
      proof (cases "n = length (requests w)")
        case True
        have "requests (fst ?rest) ! n = ?req"
          unfolding rs True by (simp add: nth_append)
        moreover have "answered e fmt (length (requests w)) ?req"
          using Returned by (rule transcribeAudioSegment_answered)
        ultimately show ?thesis unfolding step True by simp
      next
        case False
        with Cons.prems(2) have "length (requests (fst ?seg)) \<le> n"
          unfolding w' by simp
        with Cons.IH [of "Suc i" "Some t" "ts @ [t]" "fst ?seg"] Cons.prems(1,3)
        show ?thesis unfolding step by simp
      qed
    next
      case (Threw err)
      with Cons.prems(1) show ?thesis
        unfolding transcribeLoop_step [OF Some] by simp
    next
      case Unsettled
      with transcribeAudioSegment_settles show ?thesis by blast
    qed
  qed
qed

lemma transcribeSegmented_fst:
  "fst (transcribeSegmented e b k m l fmt p w) =
     (case snd (splitAudioFile e b w) of
        Returned segments \<Rightarrow> fst (transcribeLoop e k m l fmt p 0 segments None [] (fst (splitAudioFile e b w)))
      | Threw err \<Rightarrow> fst (splitAudioFile e b w)
      | Unsettled \<Rightarrow> fst (splitAudioFile e b w))"
  by (simp add: transcribeSegmented_def split: prod.splits outcome.splits)

lemma transcribeSegmented_snd:
  "snd (transcribeSegmented e b k m l fmt p w) =
     (case snd (splitAudioFile e b w) of
        Returned segments \<Rightarrow>
          (case snd (transcribeLoop e k m l fmt p 0 segments None [] (fst (splitAudioFile e b w))) of
             Returned transcriptions \<Rightarrow> combineTranscriptions fmt transcriptions
           | Threw err \<Rightarrow> Threw err
           | Unsettled \<Rightarrow> Unsettled)
      | Threw err \<Rightarrow> Threw err
      | Unsettled \<Rightarrow> Unsettled)"
  by (simp add: transcribeSegmented_def split: prod.splits outcome.splits)

lemma bigBuffer_is_segmented:
  "transcribeAudio e bigBuffer k m l fmt p w = transcribeSegmented e bigBuffer k m l fmt p w"
  by (simp add: transcribeAudio_def bigBuffer_def MAX_FILE_SIZE_def)

lemma bigBuffer_size: "MAX_FILE_SIZE < length bigBuffer"
  by (simp add: bigBuffer_def MAX_FILE_SIZE_def)

text \<open>The three runs on the recording of 1500 seconds, for any payload.\<close>

lemma good_run:
  "snd (splitAudioFile (serviceEnv goodService) buf emptyWorld) =
     Returned [''/tmp/audio-segments/segment-0.mp3'', ''/tmp/audio-segments/segment-1.mp3'',
               ''/tmp/audio-segments/segment-2.mp3'']"
  "snd (transcribeSegmented (serviceEnv goodService) buf ''key'' ''whisper-1'' ''en'' Vtt ''Vue'' emptyWorld) =
     Returned (VttDoc ''WEBVTT\<newline>\<newline>00:00:30.000 --> 00:00:40.000\<newline>hi\<newline>\<newline>00:10:10.000 --> 00:10:20.000\<newline>hi\<newline>\<newline>00:19:50.000 --> 00:20:00.000\<newline>hi'')"
  "map (files (fst (transcribeSegmented (serviceEnv goodService) buf ''key'' ''whisper-1'' ''en'' Vtt ''Vue'' emptyWorld)))
     [''/tmp/audio-segments/segment-0.mp3'', ''/tmp/audio-segments/segment-1.mp3'',
      ''/tmp/audio-segments/segment-2.mp3''] = [Some [], Some [], Some []]"
  unfolding serviceEnv_def goodService_def emptyWorld_def replyTrack_def by code_simp+

lemma limited_run:
  "snd (transcribeSegmented (serviceEnv limitedService) buf ''key'' ''whisper-1'' ''en'' Vtt ''Vue'' emptyWorld) =
     Threw (Error ''Rate limit exceeded. Please try again later.'')"
  "length (requests (fst (transcribeSegmented (serviceEnv limitedService) buf ''key'' ''whisper-1'' ''en'' Vtt ''Vue'' emptyWorld))) = 2"
  "map (files (fst (transcribeSegmented (serviceEnv limitedService) buf ''key'' ''whisper-1'' ''en'' Vtt ''Vue'' emptyWorld)))
     [''/tmp/audio-segments/segment-0.mp3'', ''/tmp/audio-segments/segment-1.mp3'',
      ''/tmp/audio-segments/segment-2.mp3''] = [Some [], Some [], Some []]"
  unfolding serviceEnv_def limitedService_def emptyWorld_def replyTrack_def by code_simp+

lemma garbled_run:
  "snd (transcribeSegmented (serviceEnv garbledService) buf ''key'' ''whisper-1'' ''en'' Vtt ''Vue'' emptyWorld) =
     Returned (VttDoc ''WEBVTT\<newline>\<newline>00:00:30.000 --> 00:00:40.000\<newline>hi\<newline>\<newline>00:19:50.000 --> 00:20:00.000\<newline>hi'')"
  "map req_prompt (requests (fst (transcribeSegmented (serviceEnv garbledService) buf ''key'' ''whisper-1'' ''en'' Vtt ''Vue'' emptyWorld))) =
     [Some ''Vue'', Some ''Vue Previous context: hi'', Some ''Vue Previous context: <html>502 Bad Gateway</html>'']"
  unfolding serviceEnv_def garbledService_def emptyWorld_def replyTrack_def by code_simp+

text \<open>
  C9. A payload of at most \<open>25 * 1024 * 1024\<close> bytes is not split: the run sends exactly one
  request, with the whole payload, writes no file, runs no extraction, and its result is the
  result of that request, the response as it came or the error of the failed request.
\<close>

theorem small_file_single_request:
  assumes "length audioBuffer \<le> MAX_FILE_SIZE"
  shows "requests (fst (transcribeAudio e audioBuffer apiKey model language fmt prompt w)) =
      requests w @ [makeRequest audioBuffer apiKey model language fmt prompt] \<and>
    req_file (makeRequest audioBuffer apiKey model language fmt prompt) = audioBuffer \<and>
    files (fst (transcribeAudio e audioBuffer apiKey model language fmt prompt w)) = files w \<and>
    ffmpeg_runs (fst (transcribeAudio e audioBuffer apiKey model language fmt prompt w)) = ffmpeg_runs w \<and>
    snd (transcribeAudio e audioBuffer apiKey model language fmt prompt w) =
      (case fmt of
         Vtt \<Rightarrow>
           (case fetch_vtt e (length (requests w)) (makeRequest audioBuffer apiKey model language fmt prompt) of
              Inl err \<Rightarrow> Threw (rethrow err)
            | Inr response \<Rightarrow> Returned (VttDoc response))
       | Json \<Rightarrow>
           (case fetch_json e (length (requests w)) (makeRequest audioBuffer apiKey model language fmt prompt) of
              Inl err \<Rightarrow> Threw (rethrow err)
            | Inr response \<Rightarrow> Returned (JsonDoc response)))"
  using assms by (simp add: transcribeAudio_def transcribeAudioSegment_def makeRequest_def)

theorem small_file_single_request_witness:
  "length [1, 2, 3 :: 8 word] \<le> MAX_FILE_SIZE \<and>
   requests (fst (transcribeAudio (serviceEnv goodService) [1, 2, 3] ''key'' ''whisper-1'' ''en'' Vtt ''Vue'' emptyWorld)) =
     [makeRequest [1, 2, 3] ''key'' ''whisper-1'' ''en'' Vtt ''Vue''] \<and>
   snd (transcribeAudio (serviceEnv goodService) [1, 2, 3] ''key'' ''whisper-1'' ''en'' Vtt ''Vue'' emptyWorld) =
     Returned (VttDoc replyTrack)"
proof -
  have h: "length [1, 2, 3 :: 8 word] \<le> MAX_FILE_SIZE"
    by (simp add: MAX_FILE_SIZE_def)
  show ?thesis
    using h small_file_single_request [OF h, of "serviceEnv goodService" "''key''" "''whisper-1''" "''en''"
        Vtt "''Vue''" emptyWorld]
    by (simp add: serviceEnv_def goodService_def emptyWorld_def)
qed

text \<open>
  C7, as the code has it. When a run splits the audio and the split succeeds, every
  extracted clip file still exists when the run ends, whether it ends with a transcript or
  with an error; only the temporary copy of the input is removed.
\<close>

theorem clip_files_remain:
  assumes "MAX_FILE_SIZE < length audioBuffer"
    and "snd (splitAudioFile e audioBuffer w) = Returned segments"
  shows "(\<forall>p\<in>set segments.
            files (fst (transcribeAudio e audioBuffer apiKey model language fmt prompt w)) p \<noteq> None) \<and>
         files (fst (transcribeAudio e audioBuffer apiKey model language fmt prompt w)) (inputPath e) = None"
proof -
  have run: "transcribeAudio e audioBuffer apiKey model language fmt prompt w =
      transcribeSegmented e audioBuffer apiKey model language fmt prompt w"
    using assms(1) by (simp add: transcribeAudio_def)
  have fs: "files (fst (transcribeSegmented e audioBuffer apiKey model language fmt prompt w)) =
      files (fst (splitAudioFile e audioBuffer w))"
    unfolding transcribeSegmented_fst assms(2) by (simp add: transcribeLoop_files)
  show ?thesis
    unfolding run fs using splitAudioFile_clips_exist [OF assms(2)] by simp
qed

theorem clip_files_remain_witness:
  "MAX_FILE_SIZE < length bigBuffer \<and>
   snd (splitAudioFile (serviceEnv goodService) bigBuffer emptyWorld) =
     Returned [''/tmp/audio-segments/segment-0.mp3'', ''/tmp/audio-segments/segment-1.mp3'',
               ''/tmp/audio-segments/segment-2.mp3''] \<and>
   files (fst (transcribeAudio (serviceEnv goodService) bigBuffer ''key'' ''whisper-1'' ''en'' Vtt ''Vue'' emptyWorld))
     ''/tmp/audio-segments/segment-0.mp3'' \<noteq> None \<and>
   files (fst (transcribeAudio (serviceEnv goodService) bigBuffer ''key'' ''whisper-1'' ''en'' Vtt ''Vue'' emptyWorld))
     ''/tmp/audio-segments/segment-1.mp3'' \<noteq> None \<and>
   files (fst (transcribeAudio (serviceEnv goodService) bigBuffer ''key'' ''whisper-1'' ''en'' Vtt ''Vue'' emptyWorld))
     ''/tmp/audio-segments/segment-2.mp3'' \<noteq> None \<and>
   files (fst (transcribeAudio (serviceEnv goodService) bigBuffer ''key'' ''whisper-1'' ''en'' Vtt ''Vue'' emptyWorld))
     (inputPath (serviceEnv goodService)) = None"
  using bigBuffer_size good_run(1) [of bigBuffer]
    clip_files_remain [OF bigBuffer_size good_run(1) [of bigBuffer],
      of "''key''" "''whisper-1''" "''en''" Vtt "''Vue''"]
  by simp

text \<open>
  C7 as stated fails on both exit paths: after the run that returns a transcript, and after
  the run that aborts on the refused second request, the three clip files exist.
\<close>

theorem clip_files_counterexample:
  "snd (transcribeAudio (serviceEnv goodService) bigBuffer ''key'' ''whisper-1'' ''en'' Vtt ''Vue'' emptyWorld) =
     Returned (VttDoc ''WEBVTT\<newline>\<newline>00:00:30.000 --> 00:00:40.000\<newline>hi\<newline>\<newline>00:10:10.000 --> 00:10:20.000\<newline>hi\<newline>\<newline>00:19:50.000 --> 00:20:00.000\<newline>hi'') \<and>
   map (files (fst (transcribeAudio (serviceEnv goodService) bigBuffer ''key'' ''whisper-1'' ''en'' Vtt ''Vue'' emptyWorld)))
     [''/tmp/audio-segments/segment-0.mp3'', ''/tmp/audio-segments/segment-1.mp3'',
      ''/tmp/audio-segments/segment-2.mp3''] = [Some [], Some [], Some []] \<and>
   snd (transcribeAudio (serviceEnv limitedService) bigBuffer ''key'' ''whisper-1'' ''en'' Vtt ''Vue'' emptyWorld) =
     Threw (Error ''Rate limit exceeded. Please try again later.'') \<and>
   map (files (fst (transcribeAudio (serviceEnv limitedService) bigBuffer ''key'' ''whisper-1'' ''en'' Vtt ''Vue'' emptyWorld)))
     [''/tmp/audio-segments/segment-0.mp3'', ''/tmp/audio-segments/segment-1.mp3'',
      ''/tmp/audio-segments/segment-2.mp3''] = [Some [], Some [], Some []]"
  unfolding bigBuffer_is_segmented
  using good_run(2,3) [of bigBuffer] limited_run(1,3) [of bigBuffer] by simp

text \<open>
  C8, as the code has it. If a request of the run is not answered (network, authentication,
  rate limit or bad request), the run ends with a thrown error and returns no transcript.
\<close>

theorem failed_request_aborts:
  assumes "length (requests w) \<le> n"
    and "n < length (requests (fst (transcribeAudio e audioBuffer apiKey model language fmt prompt w)))"
    and "\<not> answered e fmt n (requests (fst (transcribeAudio e audioBuffer apiKey model language fmt prompt w)) ! n)"
  shows "\<exists>err. snd (transcribeAudio e audioBuffer apiKey model language fmt prompt w) = Threw err"
proof (cases "length audioBuffer \<le> MAX_FILE_SIZE")
  case True
  let ?req = "makeRequest audioBuffer apiKey model language fmt prompt"
  have run: "transcribeAudio e audioBuffer apiKey model language fmt prompt w =
      transcribeAudioSegment e audioBuffer apiKey model language fmt prompt w"
    using True by (simp add: transcribeAudio_def)
  have rq: "requests (fst (transcribeAudioSegment e audioBuffer apiKey model language fmt prompt w)) =
      requests w @ [?req]"
    by (simp add: transcribeAudioSegment_world)
  from assms(1,2) have n: "n = length (requests w)"
    unfolding run rq by simp
  from assms(3) have "\<not> answered e fmt (length (requests w)) ?req"
    unfolding run rq n by simp
  then show ?thesis
    unfolding run
    by (auto simp: transcribeAudioSegment_def answered_def split: format.splits sum.splits)
next
  case False
  let ?split = "splitAudioFile e audioBuffer w"
  have run: "transcribeAudio e audioBuffer apiKey model language fmt prompt w =
      transcribeSegmented e audioBuffer apiKey model language fmt prompt w"
    using False by (simp add: transcribeAudio_def)
  show ?thesis
  proof (cases "snd ?split")
    case (Returned segments)
    let ?loop = "transcribeLoop e apiKey model language fmt prompt 0 segments None [] (fst ?split)"
    have f: "fst (transcribeSegmented e audioBuffer apiKey model language fmt prompt w) = fst ?loop"
      unfolding transcribeSegmented_fst Returned by simp
    have le: "length (requests (fst ?split)) \<le> n"
      using assms(1) by (simp add: splitAudioFile_requests)
    show ?thesis
    proof (cases "snd ?loop")
      case (Returned transcriptions)
      from transcribeLoop_answered [OF this le] assms(2,3) show ?thesis
        unfolding run f by blast
    next
      case (Threw err)
      then show ?thesis
        unfolding run transcribeSegmented_snd \<open>snd ?split = Returned segments\<close> by simp
    next
      case Unsettled
      with transcribeLoop_settles show ?thesis by blast
    qed
  next
    case (Threw err)
    from assms(1,2) show ?thesis
      unfolding run transcribeSegmented_fst Threw by (simp add: splitAudioFile_requests)
  next
    case Unsettled
    from assms(1,2) show ?thesis
      unfolding run transcribeSegmented_fst Unsettled by (simp add: splitAudioFile_requests)
  qed
qed

theorem failed_request_aborts_witness:
  "length (requests emptyWorld) \<le> 1 \<and>
   1 < length (requests (fst (transcribeAudio (serviceEnv limitedService) bigBuffer ''key'' ''whisper-1'' ''en'' Vtt ''Vue'' emptyWorld))) \<and>
   \<not> answered (serviceEnv limitedService) Vtt 1
       (requests (fst (transcribeAudio (serviceEnv limitedService) bigBuffer ''key'' ''whisper-1'' ''en'' Vtt ''Vue'' emptyWorld)) ! 1) \<and>
   (\<exists>err. snd (transcribeAudio (serviceEnv limitedService) bigBuffer ''key'' ''whisper-1'' ''en'' Vtt ''Vue'' emptyWorld) = Threw err)"
proof -
  have h1: "length (requests emptyWorld) \<le> 1"
    by (simp add: emptyWorld_def)
  have h2: "1 < length (requests (fst (transcribeAudio (serviceEnv limitedService) bigBuffer ''key'' ''whisper-1'' ''en'' Vtt ''Vue'' emptyWorld)))"
    unfolding bigBuffer_is_segmented limited_run(2) by simp
  have h3: "\<not> answered (serviceEnv limitedService) Vtt 1
       (requests (fst (transcribeAudio (serviceEnv limitedService) bigBuffer ''key'' ''whisper-1'' ''en'' Vtt ''Vue'' emptyWorld)) ! 1)"
    by (simp add: answered_def serviceEnv_def limitedService_def)
  show ?thesis
    using h1 h2 h3 failed_request_aborts [OF h1 h2 h3] by simp
qed

text \<open>
  C8 as stated fails for a response that is not a cue track: the service answers the second
  of three requests with an error page, the run returns a transcript all the same, without
  any cue of the second clip, and the error page is passed on as context for the third.
\<close>

theorem malformed_response_counterexample:
  "snd (transcribeAudio (serviceEnv garbledService) bigBuffer ''key'' ''whisper-1'' ''en'' Vtt ''Vue'' emptyWorld) =
     Returned (VttDoc ''WEBVTT\<newline>\<newline>00:00:30.000 --> 00:00:40.000\<newline>hi\<newline>\<newline>00:19:50.000 --> 00:20:00.000\<newline>hi'') \<and>
   map req_prompt (requests (fst (transcribeAudio (serviceEnv garbledService) bigBuffer ''key'' ''whisper-1'' ''en'' Vtt ''Vue'' emptyWorld))) =
     [Some ''Vue'', Some ''Vue Previous context: hi'', Some ''Vue Previous context: <html>502 Bad Gateway</html>'']"
  unfolding bigBuffer_is_segmented using garbled_run [of bigBuffer] by simp
end
